theory Spec2Isabelle
  imports Main "HOL-Library.AList"
begin

unbundle bit_operations_syntax

section \<open>The syntax tree handed over by the parser\<close>

text \<open>
  The analysis never parses text: it receives a tree of \<open>ts.Node\<close> objects and looks at
  them through the kind predicates (\<open>ts.isBlock\<close>, \<open>ts.isFunctionLike\<close>, ...), through
  named properties (\<open>node.name\<close>, \<open>node.initializer\<close>, ...) and through
  \<open>ts.forEachChild\<close>.  A node is modelled by its identity (the key of the
  \<open>WeakMap\<close>), its kind, its \<open>text\<close> (\<open>nodeText\<close>), its \<open>flags\<close> and its child properties, listed in
  the order in which \<open>ts.forEachChild\<close> enumerates them.  A property holds one node or a
  node array; an absent property is \<open>undefined\<close>.

  Only the kinds the analysis tells apart are listed by name.  \<open>TypeNodeKind k\<close> stands
  for any other kind accepted by \<open>ts.isTypeNode\<close>, \<open>OtherKind k\<close> for any other kind at
  all (statements, literals, tokens, ...).
\<close>

datatype (plugins only: size) SyntaxKind =
    SourceFile | Block | CatchClause | ImportClause | NamespaceImport
  | FunctionDeclaration | FunctionExpression | ArrowFunction
  | MethodDeclaration | Constructor | GetAccessor | SetAccessor
  | MethodSignature | CallSignature | ConstructSignature | IndexSignature
  | FunctionType | ConstructorType | JSDocFunctionType | JSDocSignature
  | ClassDeclaration | ClassExpression
  | ForStatement | ForInStatement | ForOfStatement
  | VariableDeclarationList | VariableDeclaration
  | Identifier | ObjectBindingPattern | ArrayBindingPattern | BindingElement | Parameter
  | ExpressionStatement | BinaryExpression | ReturnStatement | ThrowStatement
  | PropertyAccessExpression | ElementAccessExpression | CallExpression
  | IfStatement | WhileStatement | SwitchStatement | CaseClause
  | JsxOpeningElement | JsxClosingElement | JsxSelfClosingElement | JsxExpression
  | JsxAttribute | JsxSpreadAttribute
  | PropertyAssignment | ComputedPropertyName
  | EqualsToken
  | TypeNodeKind nat | OtherKind nat

datatype node =
  Node (nodeId: nat) (kind: SyntaxKind) (nodeText: string) (flags: int)
       (props: "(string \<times> child) list")
and child = Single node | Array "node list"

text \<open>\<open>node.p\<close> for a property that holds a node, \<open>undefined\<close> when it is absent.\<close>

definition getProp :: "node \<Rightarrow> string \<Rightarrow> node option" where
  "getProp n p = (case map_of (props n) p of Some (Single c) \<Rightarrow> Some c | _ \<Rightarrow> None)"

text \<open>\<open>node.p\<close> for a property that holds a node array; \<open>undefined\<close> is \<open>None\<close>.\<close>

definition getArray :: "node \<Rightarrow> string \<Rightarrow> node list option" where
  "getArray n p = (case map_of (props n) p of Some (Array cs) \<Rightarrow> Some cs | _ \<Rightarrow> None)"

text \<open>The nodes \<open>ts.forEachChild(node, cb)\<close> hands to \<open>cb\<close>, in order.\<close>

fun propNodes :: "child \<Rightarrow> node list" where
  "propNodes (Single c) = [c]"
| "propNodes (Array cs) = cs"

definition forEachChild :: "node \<Rightarrow> node list" where
  "forEachChild n = concat (map (\<lambda>(p, v). propNodes v) (props n))"

text \<open>\<open>node.p\<close> as it is: a node, a node array, or \<open>undefined\<close>.\<close>

definition getChild :: "node \<Rightarrow> string \<Rightarrow> child option" where
  "getChild n p = map_of (props n) p"

text \<open>A child is smaller than its parent: the recursions over the tree terminate.\<close>

lemma size_map_of:
  "map_of ps p = Some ch \<Longrightarrow> size ch < Suc (size_list (size_prod (\<lambda>_. 0) size) ps)"
  by (induction ps) (auto split: if_splits)

lemma size_getChild: "getChild n p = Some ch \<Longrightarrow> size ch < size n"
  by (cases n) (auto simp: getChild_def dest: size_map_of)

lemma size_getProp: "getProp n p = Some c \<Longrightarrow> size c < size n"
  by (cases n) (auto simp: getProp_def split: option.splits child.splits dest!: size_map_of)

lemma size_getArray: "getArray n p = Some cs \<Longrightarrow> size_list size cs < size n"
  by (cases n) (auto simp: getArray_def split: option.splits child.splits dest!: size_map_of)

lemma size_propNodes: "size_list size (propNodes v) \<le> size v"
  by (cases v) auto

lemma size_forEachChild: "size_list size (forEachChild n) < size n"
proof -
  have "size_list size (concat (map (\<lambda>(p, v). propNodes v) ps))
          \<le> size_list (size_prod (\<lambda>_. 0) size) ps" for ps :: "(string \<times> child) list"
  proof (induction ps)
    case Nil then show ?case by simp
  next
    case (Cons a ps)
    obtain p v where a: "a = (p, v)" by (cases a)
    have "size_list size (propNodes v) \<le> size v" by (rule size_propNodes)
    with Cons a show ?case by (simp add: size_list_append)
  qed
  then show ?thesis by (cases n) (simp add: forEachChild_def le_imp_less_Suc)
qed


lemma size_forEachChild_twice: "Suc (2 * size_list size (forEachChild n)) < 2 * size n"
  using size_forEachChild[of n] by arith

lemma size_forEachChild_thrice:
  "Suc (Suc (3 * size_list size (forEachChild n))) < 3 * size n"
  "Suc (3 * size_list size (forEachChild n)) < 3 * size n"
  using size_forEachChild[of n] by arith+

lemma size_getChild_thrice:
  "(case getChild n p of None \<Rightarrow> 0 | Some ch \<Rightarrow> 3 * size ch + 2) < 3 * size n"
  "(case getChild n p of None \<Rightarrow> 0 | Some ch \<Rightarrow> 3 * size ch + 2) < Suc (3 * size n)"
proof -
  have "0 < size n" by (cases n) simp
  then show "(case getChild n p of None \<Rightarrow> 0 | Some ch \<Rightarrow> 3 * size ch + 2) < 3 * size n"
    by (cases "getChild n p") (auto dest: size_getChild)
  then show "(case getChild n p of None \<Rightarrow> 0 | Some ch \<Rightarrow> 3 * size ch + 2) < Suc (3 * size n)"
    by simp
qed

section \<open>Kind predicates of the parser library\<close>

abbreviation isIdentifier :: "node \<Rightarrow> bool" where "isIdentifier n \<equiv> kind n = Identifier"
abbreviation isBlock :: "node \<Rightarrow> bool" where "isBlock n \<equiv> kind n = Block"
abbreviation isCatchClause :: "node \<Rightarrow> bool" where "isCatchClause n \<equiv> kind n = CatchClause"
abbreviation isImportClause :: "node \<Rightarrow> bool" where "isImportClause n \<equiv> kind n = ImportClause"
abbreviation isNamespaceImport :: "node \<Rightarrow> bool" where "isNamespaceImport n \<equiv> kind n = NamespaceImport"
abbreviation isObjectBindingPattern :: "node \<Rightarrow> bool" where
  "isObjectBindingPattern n \<equiv> kind n = ObjectBindingPattern"
abbreviation isArrayBindingPattern :: "node \<Rightarrow> bool" where
  "isArrayBindingPattern n \<equiv> kind n = ArrayBindingPattern"
abbreviation isBindingElement :: "node \<Rightarrow> bool" where "isBindingElement n \<equiv> kind n = BindingElement"
abbreviation isFunctionDeclaration :: "node \<Rightarrow> bool" where
  "isFunctionDeclaration n \<equiv> kind n = FunctionDeclaration"
abbreviation isFunctionExpression :: "node \<Rightarrow> bool" where
  "isFunctionExpression n \<equiv> kind n = FunctionExpression"
abbreviation isArrowFunction :: "node \<Rightarrow> bool" where "isArrowFunction n \<equiv> kind n = ArrowFunction"
abbreviation isConstructorDeclaration :: "node \<Rightarrow> bool" where
  "isConstructorDeclaration n \<equiv> kind n = Constructor"
abbreviation isMethodDeclaration :: "node \<Rightarrow> bool" where
  "isMethodDeclaration n \<equiv> kind n = MethodDeclaration"
abbreviation isGetAccessorDeclaration :: "node \<Rightarrow> bool" where
  "isGetAccessorDeclaration n \<equiv> kind n = GetAccessor"
abbreviation isSetAccessorDeclaration :: "node \<Rightarrow> bool" where
  "isSetAccessorDeclaration n \<equiv> kind n = SetAccessor"
abbreviation isForStatement :: "node \<Rightarrow> bool" where "isForStatement n \<equiv> kind n = ForStatement"
abbreviation isForInStatement :: "node \<Rightarrow> bool" where "isForInStatement n \<equiv> kind n = ForInStatement"
abbreviation isForOfStatement :: "node \<Rightarrow> bool" where "isForOfStatement n \<equiv> kind n = ForOfStatement"
abbreviation isVariableDeclaration :: "node \<Rightarrow> bool" where
  "isVariableDeclaration n \<equiv> kind n = VariableDeclaration"
abbreviation isVariableDeclarationList :: "node \<Rightarrow> bool" where
  "isVariableDeclarationList n \<equiv> kind n = VariableDeclarationList"
abbreviation isParameter :: "node \<Rightarrow> bool" where "isParameter n \<equiv> kind n = Parameter"

definition isFunctionLike :: "node \<Rightarrow> bool" where
  "isFunctionLike n =
     (kind n \<in> set [MethodSignature, CallSignature, JSDocSignature, ConstructSignature,
                     IndexSignature, FunctionType, JSDocFunctionType, ConstructorType,
                     FunctionDeclaration, MethodDeclaration, Constructor, GetAccessor,
                     SetAccessor, FunctionExpression, ArrowFunction])"

definition isClassLike :: "node \<Rightarrow> bool" where
  "isClassLike n = (kind n = ClassDeclaration \<or> kind n = ClassExpression)"

definition isTypeNode :: "node \<Rightarrow> bool" where
  "isTypeNode n =
     ((case kind n of TypeNodeKind k \<Rightarrow> True | _ \<Rightarrow> False)
      \<or> kind n \<in> set [FunctionType, ConstructorType, JSDocFunctionType])"

text \<open>
  Modelled from the spec: the constants \<open>ts.NodeFlags.BlockScoped\<close> and
  \<open>ts.NodeFlags.Const\<close> of the parser library, which are not part of the sources.  The spec
  calls them the block-scoped modifier (\<open>let\<close> or \<open>const\<close>) and the immutable modifier
  (\<open>const\<close>); the bits are those of the library (\<open>Let = 1\<close>, \<open>Const = 2\<close>,
  \<open>BlockScoped = Let | Const\<close>).
\<close>

definition NodeFlags_BlockScoped :: int where "NodeFlags_BlockScoped = 3"
definition NodeFlags_Const :: int where "NodeFlags_Const = 2"

section \<open>The scope tree\<close>

datatype ScopeKind = LexicalScope | FunctionScope

datatype Mutability = Mutable | Immutable

datatype error =
    CouldNotFindParentFunctionScope
  | ScopeNotFound
  | NoScopeForNode
  | TypeError

type_synonym scope_ref = nat
type_synonym binding_ref = nat

text \<open>
  Scopes and bindings are mutable objects that are shared by reference, so they live in a
  store and are named by handles: a handle is the position at which the object was
  allocated.  The \<open>Map\<close> of bindings is a list of entries in insertion order
  (\<open>Map.get\<close> is \<open>map_of\<close>, \<open>Map.set\<close> is \<open>AList.update\<close>).  A \<open>ScopeReference\<close> is never changed after it is built and is kept by value
  (its fields are \<open>identifier\<close>, \<open>referenceTo\<close>, \<open>referencedFromScope\<close>, \<open>writeExpr\<close>,
  \<open>isInitializer\<close> in the source; \<open>referenceTo\<close> is the pair of the binding and its
  scope).
\<close>

record ScopeReference =
  refIdentifier :: node
  referenceTo :: "(binding_ref \<times> scope_ref) option"
  referencedFromScope :: scope_ref
  writeExpr :: "node option"
  isInitializer :: bool

record ScopeBindingDeclaration =
  declaringNode :: node
  bindingScopeKind :: ScopeKind
  bindingIdentifier :: string
  mutability :: Mutability
  references :: "ScopeReference list"

record Scope =
  scopeKind :: ScopeKind
  bindings :: "(string \<times> binding_ref) list"
  parentScope :: "scope_ref option"
  childScopes :: "scope_ref list"
  declaratingNode :: node
  scopeReferences :: "ScopeReference list"

record Store =
  scopes :: "Scope list"
  decls :: "ScopeBindingDeclaration list"

text \<open>
  A computation either does not return (\<open>None\<close>), throws (\<open>Some (Inl e)\<close>) or returns a
  value (\<open>Some (Inr x)\<close>).
\<close>

type_synonym 'a result = "(error + 'a) option"

definition ok :: "'a \<Rightarrow> 'a result" where
  "ok x = Some (Inr x)"

definition throw :: "error \<Rightarrow> 'a result" where
  "throw e = Some (Inl e)"

definition andThen :: "'a result \<Rightarrow> ('a \<Rightarrow> 'b result) \<Rightarrow> 'b result" where
  "andThen r f = (case r of None \<Rightarrow> None | Some (Inl e) \<Rightarrow> Some (Inl e) | Some (Inr x) \<Rightarrow> f x)"

text \<open>\<open>new Scope(scopeKind, declaratingNode, parentScope)\<close>\<close>

definition newScope :: "ScopeKind \<Rightarrow> node \<Rightarrow> scope_ref option \<Rightarrow> Scope" where
  "newScope k n p =
     \<lparr>scopeKind = k, bindings = [], parentScope = p, childScopes = [],
      declaratingNode = n, scopeReferences = []\<rparr>"

text \<open>\<open>Scope.newChildScope\<close>: the new scope's handle is returned with the store.\<close>

definition newChildScope :: "Store \<Rightarrow> scope_ref \<Rightarrow> ScopeKind \<Rightarrow> node \<Rightarrow> Store \<times> scope_ref" where
  "newChildScope st this k n =
     (let childScope = length (scopes st);
          ss = scopes st @ [newScope k n (Some this)]
      in (st\<lparr>scopes := ss[this := (ss ! this)\<lparr>childScopes := childScopes (ss ! this) @ [childScope]\<rparr>]\<rparr>,
          childScope))"

text \<open>\<open>Scope.getBinding\<close>\<close>

partial_function (option) getBinding ::
  "Store \<Rightarrow> scope_ref \<Rightarrow> string \<Rightarrow> (binding_ref \<times> scope_ref) option option" where
  "getBinding st this name =
     (case map_of (bindings (scopes st ! this)) name of
        Some decl \<Rightarrow> Some (Some (decl, this))
      | None \<Rightarrow>
          (case parentScope (scopes st ! this) of
             None \<Rightarrow> Some None
           | Some p \<Rightarrow> getBinding st p name))"

text \<open>\<open>Scope.hasBinding\<close>, \<open>getOwnLexicalBinding\<close>, \<open>hasOwnLexicalBinding\<close>\<close>

definition hasBinding :: "Store \<Rightarrow> scope_ref \<Rightarrow> string \<Rightarrow> bool option" where
  "hasBinding st this name = map_option (\<lambda>r. r \<noteq> None) (getBinding st this name)"

definition getOwnLexicalBinding :: "Store \<Rightarrow> scope_ref \<Rightarrow> string \<Rightarrow> binding_ref option" where
  "getOwnLexicalBinding st this name = map_of (bindings (scopes st ! this)) name"

definition hasOwnLexicalBinding :: "Store \<Rightarrow> scope_ref \<Rightarrow> string \<Rightarrow> bool" where
  "hasOwnLexicalBinding st this name = (getOwnLexicalBinding st this name \<noteq> None)"

text \<open>
  \<open>this.bindings.set(name, declaration)\<close> on the scope \<open>s\<close>.  Every caller passes a fresh
  object literal, which is allocated here.
\<close>

definition bindingsSet :: "Store \<Rightarrow> scope_ref \<Rightarrow> string \<Rightarrow> ScopeBindingDeclaration \<Rightarrow> Store" where
  "bindingsSet st s name declaration =
     st\<lparr>decls := decls st @ [declaration],
        scopes := (scopes st)[s := (scopes st ! s)
                    \<lparr>bindings := AList.update name (length (decls st)) (bindings (scopes st ! s))\<rparr>]\<rparr>"

text \<open>
  The loop of \<open>Scope.addBinding\<close>:
  \<open>while (scope != null && scope.scopeKind !== ScopeKind.FunctionScope) scope = scope.parentScope\<close>;
  the value is \<open>scope\<close> when the loop is left.
\<close>

partial_function (option) addBindingLoop ::
  "Store \<Rightarrow> scope_ref option \<Rightarrow> scope_ref option option" where
  "addBindingLoop st scope =
     (case scope of
        None \<Rightarrow> Some None
      | Some s \<Rightarrow>
          if scopeKind (scopes st ! s) \<noteq> FunctionScope
          then addBindingLoop st (parentScope (scopes st ! s))
          else Some (Some s))"

text \<open>\<open>Scope.addBinding\<close>\<close>

definition addBinding ::
  "Store \<Rightarrow> scope_ref \<Rightarrow> string \<Rightarrow> ScopeBindingDeclaration \<Rightarrow> Store result" where
  "addBinding st this name declaration =
     (if bindingScopeKind declaration = LexicalScope
      then ok (bindingsSet st this name declaration)
      else
        (case addBindingLoop st (Some this) of
           None \<Rightarrow> None
         | Some None \<Rightarrow> throw CouldNotFindParentFunctionScope
         | Some (Some scope) \<Rightarrow> ok (bindingsSet st scope name declaration)))"

text \<open>\<open>binding[0].references.push(reference)\<close> and \<open>this.references.push(reference)\<close>\<close>

definition bindingReferencesPush :: "Store \<Rightarrow> binding_ref \<Rightarrow> ScopeReference \<Rightarrow> Store" where
  "bindingReferencesPush st b r =
     st\<lparr>decls := (decls st)[b := (decls st ! b)\<lparr>references := references (decls st ! b) @ [r]\<rparr>]\<rparr>"

definition scopeReferencesPush :: "Store \<Rightarrow> scope_ref \<Rightarrow> ScopeReference \<Rightarrow> Store" where
  "scopeReferencesPush st s r =
     st\<lparr>scopes := (scopes st)[s := (scopes st ! s)\<lparr>scopeReferences := scopeReferences (scopes st ! s) @ [r]\<rparr>]\<rparr>"

text \<open>\<open>Scope.addReference\<close>; it has no \<open>throw\<close>.\<close>

definition addReference ::
  "Store \<Rightarrow> scope_ref \<Rightarrow> node \<Rightarrow> node option \<Rightarrow> bool \<Rightarrow> Store option" where
  "addReference st this nd wr ini =
     (case getBinding st this (nodeText nd) of
        None \<Rightarrow> None
      | Some binding \<Rightarrow>
          (let reference =
                 \<lparr>refIdentifier = nd, referenceTo = binding, referencedFromScope = this,
                  writeExpr = wr, isInitializer = ini\<rparr>;
               st1 = (case binding of
                        None \<Rightarrow> st
                      | Some (b, s) \<Rightarrow> bindingReferencesPush st b reference)
           in Some (scopeReferencesPush st1 this reference)))"

section \<open>Pass 1: findScopes\<close>

type_synonym scopes_map = "nat \<rightharpoonup> scope_ref"
type_synonym builder = "Store \<times> scopes_map"

text \<open>The object literal passed to \<open>addBinding\<close>.\<close>

definition newBinding :: "node \<Rightarrow> ScopeKind \<Rightarrow> string \<Rightarrow> Mutability \<Rightarrow> ScopeBindingDeclaration" where
  "newBinding decl k name m =
     \<lparr>declaringNode = decl, bindingScopeKind = k, bindingIdentifier = name, mutability = m,
      references = []\<rparr>"

text \<open>\<open>addAllChildren\<close>: \<open>ts.forEachChild(node, child => { result.set(child, scope) })\<close>\<close>

definition addAllChildren :: "node \<Rightarrow> scope_ref \<Rightarrow> scopes_map \<Rightarrow> scopes_map" where
  "addAllChildren n scope result = fold (\<lambda>child r. r(nodeId child \<mapsto> scope)) (forEachChild n) result"

text \<open>
  \<open>visitBindingName\<close>, \<open>visitArrayBindingElement\<close>, \<open>visitBindingElement\<close>; the two
  \<open>forEach\<close> functions are the loops \<open>bindingName.elements.forEach(...)\<close>.  Reading a
  property of \<open>undefined\<close> is a \<open>TypeError\<close>.
\<close>

function visitBindingName ::
    "node \<Rightarrow> node \<Rightarrow> scope_ref \<Rightarrow> ScopeKind \<Rightarrow> Mutability \<Rightarrow> Store \<Rightarrow> Store result"
  and forEachBindingElement ::
    "node list \<Rightarrow> node \<Rightarrow> scope_ref \<Rightarrow> ScopeKind \<Rightarrow> Mutability \<Rightarrow> Store \<Rightarrow> Store result"
  and forEachArrayBindingElement ::
    "node list \<Rightarrow> node \<Rightarrow> scope_ref \<Rightarrow> ScopeKind \<Rightarrow> Mutability \<Rightarrow> Store \<Rightarrow> Store result"
  and visitArrayBindingElement ::
    "node \<Rightarrow> node \<Rightarrow> scope_ref \<Rightarrow> ScopeKind \<Rightarrow> Mutability \<Rightarrow> Store \<Rightarrow> Store result"
  and visitBindingElement ::
    "node \<Rightarrow> node \<Rightarrow> scope_ref \<Rightarrow> ScopeKind \<Rightarrow> Mutability \<Rightarrow> Store \<Rightarrow> Store result"
where
  "visitBindingName bindingName decl scope scopeKind' mutability' st =
     (if isIdentifier bindingName then
        addBinding st scope (nodeText bindingName)
          (newBinding decl scopeKind' (nodeText bindingName) mutability')
      else if isObjectBindingPattern bindingName then
        (case getArray bindingName ''elements'' of
           None \<Rightarrow> throw TypeError
         | Some els \<Rightarrow> forEachBindingElement els decl scope scopeKind' mutability' st)
      else if isArrayBindingPattern bindingName then
        (case getArray bindingName ''elements'' of
           None \<Rightarrow> throw TypeError
         | Some els \<Rightarrow> forEachArrayBindingElement els decl scope scopeKind' mutability' st)
      else ok st)"
| "forEachBindingElement [] decl scope scopeKind' mutability' st = ok st"
| "forEachBindingElement (el # els) decl scope scopeKind' mutability' st =
     andThen (visitBindingElement el decl scope scopeKind' mutability' st)
       (\<lambda>st. forEachBindingElement els decl scope scopeKind' mutability' st)"
| "forEachArrayBindingElement [] decl scope scopeKind' mutability' st = ok st"
| "forEachArrayBindingElement (el # els) decl scope scopeKind' mutability' st =
     andThen (visitArrayBindingElement el decl scope scopeKind' mutability' st)
       (\<lambda>st. forEachArrayBindingElement els decl scope scopeKind' mutability' st)"
| "visitArrayBindingElement arrayBindingElement decl scope scopeKind' mutability' st =
     (if isBindingElement arrayBindingElement
      then visitBindingElement arrayBindingElement decl scope scopeKind' mutability' st
      else ok st)"
| "visitBindingElement bindingElement decl scope scopeKind' mutability' st =
     (case getProp bindingElement ''name'' of
        None \<Rightarrow> throw TypeError
      | Some name \<Rightarrow> visitBindingName name decl scope scopeKind' mutability' st)"
  by pat_completeness auto
termination
  by (relation "measure (\<lambda>x. case x of
         Inl (Inl (n, _)) \<Rightarrow> 2 * size n
       | Inl (Inr (ns, _)) \<Rightarrow> 2 * size_list size ns
       | Inr (Inl (ns, _)) \<Rightarrow> 2 * size_list size ns
       | Inr (Inr (Inl (n, _))) \<Rightarrow> 2 * size n + 1
       | Inr (Inr (Inr (n, _))) \<Rightarrow> 2 * size n)")
     (auto dest: size_getArray size_getProp)


text \<open>The loop \<open>node.namedBindings.elements.forEach(el => scope.addBinding(el.name.text, ...))\<close>\<close>

fun forEachImportSpecifier :: "node list \<Rightarrow> scope_ref \<Rightarrow> Store \<Rightarrow> Store result" where
  "forEachImportSpecifier [] scope st = ok st"
| "forEachImportSpecifier (el # els) scope st =
     andThen
       (case getProp el ''name'' of
          None \<Rightarrow> throw TypeError
        | Some name \<Rightarrow>
            addBinding st scope (nodeText name) (newBinding el FunctionScope (nodeText name) Immutable))
       (\<lambda>st. forEachImportSpecifier els scope st)"

text \<open>The bindings \<open>visitNode\<close> adds for an import clause, before it visits the children.\<close>

definition importClauseBindings :: "node \<Rightarrow> scope_ref \<Rightarrow> Store \<Rightarrow> Store result" where
  "importClauseBindings node scope st =
     andThen
       (case getProp node ''name'' of
          None \<Rightarrow> ok st
        | Some name \<Rightarrow>
            addBinding st scope (nodeText name) (newBinding node FunctionScope (nodeText name) Immutable))
       (\<lambda>st. case getProp node ''namedBindings'' of
                None \<Rightarrow> ok st
              | Some namedBindings \<Rightarrow>
                  if isNamespaceImport namedBindings then
                    (case getProp namedBindings ''name'' of
                       None \<Rightarrow> throw TypeError
                     | Some name \<Rightarrow>
                         addBinding st scope (nodeText name)
                           (newBinding namedBindings FunctionScope (nodeText name) Immutable))
                  else
                    (case getArray namedBindings ''elements'' of
                       None \<Rightarrow> throw TypeError
                     | Some els \<Rightarrow> forEachImportSpecifier els scope st))"

text \<open>The block \<open>if (functionLike.name != null) { ... }\<close> of \<open>visitFunctionLike\<close>.\<close>

definition functionLikeName :: "node \<Rightarrow> scope_ref \<Rightarrow> builder \<Rightarrow> builder result" where
  "functionLikeName functionLike scope s =
     (case getProp functionLike ''name'' of
        None \<Rightarrow> ok s
      | Some name \<Rightarrow>
          (let result = addAllChildren name scope ((snd s)(nodeId name \<mapsto> scope)) in
           if (isFunctionDeclaration functionLike \<or> isFunctionExpression functionLike)
              \<and> isIdentifier name
           then andThen
                  (addBinding (fst s) scope (nodeText name)
                     (newBinding functionLike LexicalScope (nodeText name) Immutable))
                  (\<lambda>st. ok (st, result))
           else ok (fst s, result)))"

text \<open>The part of \<open>visitParameterDeclaration\<close> after \<open>visitNode(paramDecl, scope)\<close>.\<close>

definition parameterBindings :: "node \<Rightarrow> scope_ref \<Rightarrow> Store \<Rightarrow> Store result" where
  "parameterBindings paramDecl scope st =
     (case getProp paramDecl ''name'' of
        None \<Rightarrow> throw TypeError
      | Some name \<Rightarrow>
          if isIdentifier name then
            addBinding st scope (nodeText name)
              (newBinding paramDecl FunctionScope (nodeText name) Mutable)
          else if isObjectBindingPattern name then
            (case getArray name ''elements'' of
               None \<Rightarrow> throw TypeError
             | Some els \<Rightarrow> forEachBindingElement els paramDecl scope FunctionScope Mutable st)
          else
            (case getArray name ''elements'' of
               None \<Rightarrow> throw TypeError
             | Some els \<Rightarrow> forEachArrayBindingElement els paramDecl scope FunctionScope Mutable st))"

text \<open>
  \<open>visitNode\<close>, \<open>visitAllChildren\<close>, \<open>visitFunctionLike\<close> and
  \<open>visitParameterDeclaration\<close> of \<open>findScopes\<close>.  The first argument of \<open>visitNode\<close> is
  \<open>node.parent\<close>.  \<open>forEachVisitNode\<close> is the loop \<open>nodes.forEach(node => visitNode(node, scope))\<close>
  (also the one inside \<open>ts.forEachChild\<close>), \<open>forEachParameter\<close> the loop over
  \<open>functionLike.parameters\<close>; \<open>visitOptionalNode\<close> and \<open>visitOptionalNodes\<close> are written
  out where they are called.
\<close>

function visitNode :: "node option \<Rightarrow> node \<Rightarrow> scope_ref \<Rightarrow> builder \<Rightarrow> builder result"
  and visitAllChildren :: "node \<Rightarrow> scope_ref \<Rightarrow> builder \<Rightarrow> builder result"
  and forEachVisitNode :: "node option \<Rightarrow> node list \<Rightarrow> scope_ref \<Rightarrow> builder \<Rightarrow> builder result"
  and visitFunctionLike :: "node \<Rightarrow> scope_ref \<Rightarrow> builder \<Rightarrow> builder result"
  and forEachParameter :: "node \<Rightarrow> node list \<Rightarrow> scope_ref \<Rightarrow> builder \<Rightarrow> builder result"
  and visitParameterDeclaration :: "node \<Rightarrow> node \<Rightarrow> scope_ref \<Rightarrow> builder \<Rightarrow> builder result"
where
  "visitNode parent node scope s =
     (let st = fst s; result = (snd s)(nodeId node \<mapsto> scope) in
      if isBlock node then
        (let (st, blockScope) = newChildScope st scope LexicalScope node in
         case parent of
           None \<Rightarrow> throw TypeError
         | Some par \<Rightarrow>
             andThen
               (if isCatchClause par then
                  (case getProp par ''variableDeclaration'' of
                     None \<Rightarrow> ok st
                   | Some variableDeclaration \<Rightarrow>
                       (case getProp variableDeclaration ''name'' of
                          None \<Rightarrow> throw TypeError
                        | Some name \<Rightarrow>
                            visitBindingName name par blockScope LexicalScope Mutable st))
                else ok st)
               (\<lambda>st. visitAllChildren node blockScope (st, result)))
      else if isImportClause node then
        andThen (importClauseBindings node scope st)
          (\<lambda>st. visitAllChildren node scope (st, result))
      else if isFunctionLike node then
        visitFunctionLike node scope (st, result)
      else if isClassLike node then
        andThen
          (case getProp node ''name'' of
             None \<Rightarrow> ok st
           | Some name \<Rightarrow>
               addBinding st scope (nodeText name)
                 (newBinding node FunctionScope (nodeText name) Immutable))
          (\<lambda>st. let (st, classScope) = newChildScope st scope FunctionScope node in
                andThen
                  (addBinding st classScope ''this''
                     (newBinding node FunctionScope ''this'' Immutable))
                  (\<lambda>st. visitAllChildren node classScope (st, result)))
      else if isForInStatement node \<or> isForOfStatement node \<or> isForStatement node then
        (let result = addAllChildren node scope result;
             (st, forScope) = newChildScope st scope LexicalScope node in
         andThen
           (case getProp node ''initializer'' of
              None \<Rightarrow> ok (st, result)
            | Some initializer \<Rightarrow> visitNode (Some node) initializer forScope (st, result))
           (\<lambda>s. andThen
              (if isForStatement node then
                 andThen
                   (case getProp node ''condition'' of
                      None \<Rightarrow> ok s
                    | Some condition \<Rightarrow> visitNode (Some node) condition forScope s)
                   (\<lambda>s. case getProp node ''incrementor'' of
                           None \<Rightarrow> ok s
                         | Some incrementor \<Rightarrow> visitNode (Some node) incrementor forScope s)
               else
                 (case getProp node ''expression'' of
                    None \<Rightarrow> throw TypeError
                  | Some expression \<Rightarrow> visitNode (Some node) expression scope s))
              (\<lambda>s. case getProp node ''statement'' of
                      None \<Rightarrow> throw TypeError
                    | Some statement \<Rightarrow>
                        if isBlock statement then
                          visitAllChildren statement forScope
                            (fst s, (snd s)(nodeId statement \<mapsto> forScope))
                        else visitNode (Some node) statement forScope s)))
      else
        andThen
          (if isVariableDeclaration node then
             (case parent of
                None \<Rightarrow> throw TypeError
              | Some par \<Rightarrow>
                  if isVariableDeclarationList par then
                    (case getProp node ''name'' of
                       None \<Rightarrow> throw TypeError
                     | Some name \<Rightarrow>
                         visitBindingName name node scope
                           (if flags par AND NodeFlags_BlockScoped \<noteq> 0
                            then LexicalScope else FunctionScope)
                           (if flags par AND NodeFlags_Const \<noteq> 0 then Immutable else Mutable)
                           st)
                  else ok st)
           else ok st)
          (\<lambda>st. visitAllChildren node scope (st, result)))"
| "visitAllChildren node scope s = forEachVisitNode (Some node) (forEachChild node) scope s"
| "forEachVisitNode parent [] scope s = ok s"
| "forEachVisitNode parent (child # children) scope s =
     andThen (visitNode parent child scope s) (\<lambda>s. forEachVisitNode parent children scope s)"
| "visitFunctionLike functionLike scope s =
     (let s = (fst s, addAllChildren functionLike scope (snd s)) in
      andThen
        (case getArray functionLike ''typeParameters'' of
           None \<Rightarrow> ok s
         | Some typeParameters \<Rightarrow> forEachVisitNode (Some functionLike) typeParameters scope s)
        (\<lambda>s. andThen
           (case getProp functionLike ''type'' of
              None \<Rightarrow> ok s
            | Some type \<Rightarrow> visitNode (Some functionLike) type scope s)
           (\<lambda>s. andThen (functionLikeName functionLike scope s)
              (\<lambda>s. let (st, functionScope) = newChildScope (fst s) scope FunctionScope functionLike in
                    case getArray functionLike ''parameters'' of
                      None \<Rightarrow> throw TypeError
                    | Some parameters \<Rightarrow>
                        andThen (forEachParameter functionLike parameters functionScope (st, snd s))
                          (\<lambda>s. if isConstructorDeclaration functionLike
                                   \<or> isMethodDeclaration functionLike
                                   \<or> isFunctionDeclaration functionLike
                                   \<or> isArrowFunction functionLike
                                   \<or> isFunctionExpression functionLike
                                   \<or> isGetAccessorDeclaration functionLike
                                   \<or> isSetAccessorDeclaration functionLike
                                then
                                  (case getProp functionLike ''body'' of
                                     None \<Rightarrow> ok s
                                   | Some body \<Rightarrow>
                                       if isBlock body then
                                         visitAllChildren body functionScope
                                           (fst s, (snd s)(nodeId body \<mapsto> functionScope))
                                       else visitNode (Some functionLike) body functionScope s)
                                else ok s)))))"
| "forEachParameter functionLike [] scope s = ok s"
| "forEachParameter functionLike (paramDecl # parameters) scope s =
     andThen (visitParameterDeclaration functionLike paramDecl scope s)
       (\<lambda>s. forEachParameter functionLike parameters scope s)"
| "visitParameterDeclaration functionLike paramDecl scope s =
     andThen (visitNode (Some functionLike) paramDecl scope s)
       (\<lambda>s. andThen (parameterBindings paramDecl scope (fst s)) (\<lambda>st. ok (st, snd s)))"
  by pat_completeness auto
termination
  by (relation "measure (\<lambda>x. case x of
         Inl (Inl (p, n, _)) \<Rightarrow> 2 * size n + 1
       | Inl (Inr (Inl (n, _))) \<Rightarrow> 2 * size n
       | Inl (Inr (Inr (p, ns, _))) \<Rightarrow> 2 * size_list size ns + 1
       | Inr (Inl (n, _)) \<Rightarrow> 2 * size n
       | Inr (Inr (Inl (f, ns, _))) \<Rightarrow> 2 * size_list size ns + 1
       | Inr (Inr (Inr (f, n, _))) \<Rightarrow> 2 * size n + 2)")
     (auto dest: size_getArray size_getProp simp: size_forEachChild_twice)


text \<open>\<open>findScopes\<close>: the root scope is \<open>new Scope(ScopeKind.FunctionScope, sourceFile, null)\<close>.\<close>

definition findScopes :: "node \<Rightarrow> builder result" where
  "findScopes sourceFile =
     visitNode None sourceFile 0
       (\<lparr>scopes = [newScope FunctionScope sourceFile None], decls = []\<rparr>, Map.empty)"

section \<open>Pass 2: assignReferences\<close>

abbreviation isExpressionStatement :: "node \<Rightarrow> bool" where
  "isExpressionStatement n \<equiv> kind n = ExpressionStatement"
abbreviation isBinaryExpression :: "node \<Rightarrow> bool" where
  "isBinaryExpression n \<equiv> kind n = BinaryExpression"
abbreviation isReturnStatement :: "node \<Rightarrow> bool" where "isReturnStatement n \<equiv> kind n = ReturnStatement"
abbreviation isThrowStatement :: "node \<Rightarrow> bool" where "isThrowStatement n \<equiv> kind n = ThrowStatement"
abbreviation isPropertyAccessExpression :: "node \<Rightarrow> bool" where
  "isPropertyAccessExpression n \<equiv> kind n = PropertyAccessExpression"
abbreviation isElementAccessExpression :: "node \<Rightarrow> bool" where
  "isElementAccessExpression n \<equiv> kind n = ElementAccessExpression"
abbreviation isCallExpression :: "node \<Rightarrow> bool" where "isCallExpression n \<equiv> kind n = CallExpression"
abbreviation isIfStatement :: "node \<Rightarrow> bool" where "isIfStatement n \<equiv> kind n = IfStatement"
abbreviation isWhileStatement :: "node \<Rightarrow> bool" where "isWhileStatement n \<equiv> kind n = WhileStatement"
abbreviation isSwitchStatement :: "node \<Rightarrow> bool" where "isSwitchStatement n \<equiv> kind n = SwitchStatement"
abbreviation isCaseClause :: "node \<Rightarrow> bool" where "isCaseClause n \<equiv> kind n = CaseClause"
abbreviation isJsxOpeningElement :: "node \<Rightarrow> bool" where
  "isJsxOpeningElement n \<equiv> kind n = JsxOpeningElement"
abbreviation isJsxClosingElement :: "node \<Rightarrow> bool" where
  "isJsxClosingElement n \<equiv> kind n = JsxClosingElement"
abbreviation isJsxSelfClosingElement :: "node \<Rightarrow> bool" where
  "isJsxSelfClosingElement n \<equiv> kind n = JsxSelfClosingElement"
abbreviation isJsxExpression :: "node \<Rightarrow> bool" where "isJsxExpression n \<equiv> kind n = JsxExpression"
abbreviation isJsxAttribute :: "node \<Rightarrow> bool" where "isJsxAttribute n \<equiv> kind n = JsxAttribute"
abbreviation isJsxSpreadAttribute :: "node \<Rightarrow> bool" where
  "isJsxSpreadAttribute n \<equiv> kind n = JsxSpreadAttribute"
abbreviation isPropertyAssignment :: "node \<Rightarrow> bool" where
  "isPropertyAssignment n \<equiv> kind n = PropertyAssignment"
abbreviation isComputedPropertyName :: "node \<Rightarrow> bool" where
  "isComputedPropertyName n \<equiv> kind n = ComputedPropertyName"

text \<open>\<open>getScope\<close> of \<open>assignReferences\<close>\<close>

definition getScope :: "scopes_map \<Rightarrow> node \<Rightarrow> scope_ref result" where
  "getScope scopesMap node =
     (case scopesMap (nodeId node) of None \<Rightarrow> throw ScopeNotFound | Some scope \<Rightarrow> ok scope)"

text \<open>A call of a method that has no \<open>throw\<close>: it returns or it does not.\<close>

definition returns :: "'a option \<Rightarrow> 'a result" where
  "returns r = (case r of None \<Rightarrow> None | Some x \<Rightarrow> ok x)"

text \<open>
  \<open>visitNode\<close> of \<open>assignReferences\<close>.  Its first parameter is a node, \<open>undefined\<close> or a
  node array, that is the value of a property: \<open>ar_visitNode\<close> is the function with its
  two entry checks (\<open>node == null\<close>, \<open>isNodeArray(node)\<close>), \<open>ar_node\<close> is the rest of the
  body, for a node, and \<open>ar_forEach\<close> is the loop \<open>forEach(n => visitNode(n, collectReferences))\<close>
  over an array or over the children.
\<close>

function ar_node :: "scopes_map \<Rightarrow> node \<Rightarrow> bool \<Rightarrow> node option \<Rightarrow> Store \<Rightarrow> Store result"
  and ar_visitNode :: "scopes_map \<Rightarrow> child option \<Rightarrow> bool \<Rightarrow> node option \<Rightarrow> Store \<Rightarrow> Store result"
  and ar_forEach :: "scopes_map \<Rightarrow> node list \<Rightarrow> bool \<Rightarrow> Store \<Rightarrow> Store result"
where
  "ar_visitNode scopesMap None collectReferences initializer st = ok st"
| "ar_visitNode scopesMap (Some (Array nodes)) collectReferences initializer st =
     ar_forEach scopesMap nodes collectReferences st"
| "ar_visitNode scopesMap (Some (Single node)) collectReferences initializer st =
     ar_node scopesMap node collectReferences initializer st"
| "ar_forEach scopesMap [] collectReferences st = ok st"
| "ar_forEach scopesMap (n # nodes) collectReferences st =
     andThen (ar_node scopesMap n collectReferences None st)
       (\<lambda>st. ar_forEach scopesMap nodes collectReferences st)"
| "ar_node scopesMap node collectReferences initializer st =
     (if isTypeNode node then ok st
      else if isIdentifier node \<and> collectReferences then
        andThen (getScope scopesMap node)
          (\<lambda>scope.
             if nodeText node = [] then ok st
             else (case initializer of
                     None \<Rightarrow> returns (addReference st scope node None False)
                   | Some i \<Rightarrow> returns (addReference st scope node (Some i) True)))
      else if isVariableDeclaration node then
        andThen
          (case getChild node ''initializer'' of
             None \<Rightarrow> ok st
           | Some i \<Rightarrow> ar_visitNode scopesMap (getChild node ''initializer'') True None st)
          (\<lambda>st. ar_visitNode scopesMap (getChild node ''name'') True
                  (getProp node ''initializer'') st)
      else if isExpressionStatement node then
        ar_visitNode scopesMap (getChild node ''expression'') True None st
      else
        andThen
          (if isBinaryExpression node then
             (case getProp node ''operatorToken'' of
                None \<Rightarrow> throw TypeError
              | Some operatorToken \<Rightarrow> ok (kind operatorToken = EqualsToken))
           else ok False)
          (\<lambda>isAssignment.
      if isAssignment then
        andThen
          (case getProp node ''left'' of
             None \<Rightarrow> throw TypeError
           | Some left \<Rightarrow>
               if isIdentifier left then
                 andThen (getScope scopesMap node)
                   (\<lambda>scope. returns (addReference st scope left (getProp node ''right'') False))
               else ar_visitNode scopesMap (getChild node ''left'') True None st)
          (\<lambda>st. ar_visitNode scopesMap (getChild node ''right'') True None st)
      else if isReturnStatement node then
        ar_visitNode scopesMap (getChild node ''expression'') True None st
      else if isThrowStatement node then
        ar_visitNode scopesMap (getChild node ''expression'') True None st
      else if isPropertyAccessExpression node then
        andThen (ar_visitNode scopesMap (getChild node ''expression'') collectReferences None st)
          (\<lambda>st. ar_visitNode scopesMap (getChild node ''name'') False None st)
      else if isElementAccessExpression node then
        andThen (ar_visitNode scopesMap (getChild node ''expression'') collectReferences None st)
          (\<lambda>st. ar_visitNode scopesMap (getChild node ''argumentExpression'') True None st)
      else if isCallExpression node then
        andThen (ar_visitNode scopesMap (getChild node ''expression'') True None st)
          (\<lambda>st. ar_visitNode scopesMap (getChild node ''arguments'') True None st)
      else if isArrowFunction node then
        andThen (ar_visitNode scopesMap (getChild node ''parameters'') False None st)
          (\<lambda>st. case getProp node ''body'' of
                  None \<Rightarrow> throw TypeError
                | Some body \<Rightarrow>
                    ar_visitNode scopesMap (getChild node ''body'') (\<not> isBlock body) None st)
      else if isFunctionLike node \<and> collectReferences then
        ar_node scopesMap node False None st
      else if isParameter node then
        andThen (ar_visitNode scopesMap (getChild node ''name'') False None st)
          (\<lambda>st. ar_visitNode scopesMap (getChild node ''initializer'') True None st)
      else if isIfStatement node then
        andThen (ar_visitNode scopesMap (getChild node ''expression'') True None st)
          (\<lambda>st. andThen (ar_visitNode scopesMap (getChild node ''thenStatement'') False None st)
             (\<lambda>st. ar_visitNode scopesMap (getChild node ''elseStatement'') False None st))
      else if isForInStatement node \<or> isForOfStatement node then
        andThen (ar_visitNode scopesMap (getChild node ''expression'') True None st)
          (\<lambda>st. andThen
             (ar_visitNode scopesMap (getChild node ''initializer'') True
                (getProp node ''expression'') st)
             (\<lambda>st. ar_visitNode scopesMap (getChild node ''statement'') False None st))
      else if isForStatement node then
        andThen (ar_visitNode scopesMap (getChild node ''initializer'') True None st)
          (\<lambda>st. andThen (ar_visitNode scopesMap (getChild node ''condition'') True None st)
             (\<lambda>st. andThen (ar_visitNode scopesMap (getChild node ''incrementor'') True None st)
                (\<lambda>st. ar_visitNode scopesMap (getChild node ''statement'') False None st)))
      else if isWhileStatement node then
        andThen (ar_visitNode scopesMap (getChild node ''expression'') True None st)
          (\<lambda>st. ar_visitNode scopesMap (getChild node ''statement'') False None st)
      else if isSwitchStatement node then
        andThen (ar_visitNode scopesMap (getChild node ''expression'') True None st)
          (\<lambda>st. ar_visitNode scopesMap (getChild node ''caseBlock'') False None st)
      else if isCaseClause node then
        andThen (ar_visitNode scopesMap (getChild node ''expression'') True None st)
          (\<lambda>st. ar_visitNode scopesMap (getChild node ''statements'') False None st)
      else if isJsxOpeningElement node then
        andThen (ar_visitNode scopesMap (getChild node ''tagName'') True None st)
          (\<lambda>st. ar_visitNode scopesMap (getChild node ''attributes'') False None st)
      else if isJsxClosingElement node then
        ar_visitNode scopesMap (getChild node ''tagName'') True None st
      else if isJsxSelfClosingElement node then
        andThen (ar_visitNode scopesMap (getChild node ''tagName'') True None st)
          (\<lambda>st. ar_visitNode scopesMap (getChild node ''attributes'') False None st)
      else if isJsxExpression node then
        ar_visitNode scopesMap (getChild node ''expression'') True None st
      else if isJsxAttribute node then
        andThen (ar_visitNode scopesMap (getChild node ''name'') False None st)
          (\<lambda>st. ar_visitNode scopesMap (getChild node ''initializer'') True None st)
      else if isJsxSpreadAttribute node then
        ar_visitNode scopesMap (getChild node ''expression'') True None st
      else if isPropertyAssignment node then
        andThen (ar_visitNode scopesMap (getChild node ''name'') False None st)
          (\<lambda>st. ar_visitNode scopesMap (getChild node ''initializer'') True None st)
      else if isComputedPropertyName node then
        ar_visitNode scopesMap (getChild node ''expression'') True None st
      else ar_forEach scopesMap (forEachChild node) collectReferences st))"
  by pat_completeness auto
termination
  by (relation "measure (\<lambda>x. case x of
         Inl (m, n, c, _) \<Rightarrow> 3 * size n + (if c then 1 else 0)
       | Inr (Inl (m, a, _)) \<Rightarrow> (case a of None \<Rightarrow> 0 | Some ch \<Rightarrow> 3 * size ch + 2)
       | Inr (Inr (m, ns, _)) \<Rightarrow> 3 * size_list size ns + 2)")
     (auto simp: size_forEachChild_thrice size_getChild_thrice dest: size_getChild)

text \<open>\<open>assignReferences\<close>: \<open>visitNode(sourceFile, false)\<close>\<close>

definition assignReferences :: "scopes_map \<Rightarrow> node \<Rightarrow> Store \<Rightarrow> Store result" where
  "assignReferences scopesMap sourceFile st = ar_visitNode scopesMap (Some (Single sourceFile)) False None st"

section \<open>The container\<close>

text \<open>The constructor of \<open>SourceFileScopesContainer\<close> and \<open>getScopeForNode\<close>.\<close>

definition newSourceFileScopesContainer :: "node \<Rightarrow> builder result" where
  "newSourceFileScopesContainer sourceFile =
     andThen (findScopes sourceFile)
       (\<lambda>s. andThen (assignReferences (snd s) sourceFile (fst s)) (\<lambda>st. ok (st, snd s)))"

definition getScopeForNode :: "builder \<Rightarrow> node \<Rightarrow> error + scope_ref" where
  "getScopeForNode this node =
     (case snd this (nodeId node) of None \<Rightarrow> Inl NoScopeForNode | Some scope \<Rightarrow> Inr scope)"

text \<open>The equations of the recursive functions are unfolded where they are needed.\<close>

declare visitNode.simps [simp del] visitAllChildren.simps [simp del] visitFunctionLike.simps [simp del]
  visitParameterDeclaration.simps [simp del] ar_node.simps [simp del]
  visitBindingName.simps [simp del] visitBindingElement.simps [simp del]
  visitArrayBindingElement.simps [simp del]

section \<open>Well-formed stores\<close>

text \<open>
  \<open>parentScope\<close> is set once, by the constructor, to a scope that exists already: in every
  store the program can build, a parent is older than its children.  \<open>ancestor st k s\<close>
  is the scope reached from \<open>s\<close> by following \<open>parentScope\<close> \<open>k\<close> times.
\<close>

definition parentsOlder :: "Store \<Rightarrow> bool" where
  "parentsOlder st =
     list_all (\<lambda>s. case parentScope (scopes st ! s) of None \<Rightarrow> True | Some p \<Rightarrow> p < s)
       [0..<length (scopes st)]"

definition rootsAreFunctionScopes :: "Store \<Rightarrow> bool" where
  "rootsAreFunctionScopes st =
     list_all (\<lambda>s. parentScope (scopes st ! s) = None \<longrightarrow> scopeKind (scopes st ! s) = FunctionScope)
       [0..<length (scopes st)]"

definition bindingsValid :: "Store \<Rightarrow> bool" where
  "bindingsValid st =
     list_all (\<lambda>sc. list_all (\<lambda>(name, b). b < length (decls st)) (bindings sc)) (scopes st)"

fun ancestor :: "Store \<Rightarrow> nat \<Rightarrow> scope_ref \<Rightarrow> scope_ref option" where
  "ancestor st 0 s = Some s"
| "ancestor st (Suc k) s =
     (case parentScope (scopes st ! s) of None \<Rightarrow> None | Some p \<Rightarrow> ancestor st k p)"

definition storedIn :: "Store \<Rightarrow> scope_ref \<Rightarrow> string \<Rightarrow> ScopeBindingDeclaration \<Rightarrow> bool" where
  "storedIn st s name d =
     (case map_of (bindings (scopes st ! s)) name of None \<Rightarrow> False | Some b \<Rightarrow> decls st ! b = d)"

text \<open>\<open>sameTables st st'\<close>: the two stores have the same scopes and bindings, up to the
  lists of references.\<close>

definition sameTables :: "Store \<Rightarrow> Store \<Rightarrow> bool" where
  "sameTables st st' \<longleftrightarrow>
     map bindings (scopes st') = map bindings (scopes st) \<and>
     map parentScope (scopes st') = map parentScope (scopes st) \<and>
     map scopeKind (scopes st') = map scopeKind (scopes st) \<and>
     length (decls st') = length (decls st)"

section \<open>Node identities and binding targets\<close>

text \<open>
  \<open>nodeIds n\<close> lists the identities of \<open>n\<close> and of every node below it; in a tree they are
  distinct.  \<open>bindingTargets\<close> follows \<open>visitBindingName\<close>: the targets of a binding name are
  the identifier itself, or the targets of the names of the binding elements of a pattern
  (the elements of a pattern are binding elements or, in an array pattern, omitted
  expressions).  \<open>parameterTargets n\<close> collects the targets of the names of all parameter
  declarations in \<open>n\<close>.
\<close>

lemma size_child_of: "c \<in> set (forEachChild n) \<Longrightarrow> size c < size n"
  using size_forEachChild[of n] size_list_estimation'[of c "forEachChild n" "size c" size]
  by simp

function nodeIds :: "node \<Rightarrow> nat list" where
  "nodeIds n = nodeId n # concat (map nodeIds (forEachChild n))"
  by pat_completeness auto
termination
  by (relation "measure size") (auto simp: size_child_of)

declare nodeIds.simps [simp del]

function bindingTargets :: "node \<Rightarrow> nat list" where
  "bindingTargets n =
     (if isIdentifier n then [nodeId n]
      else if isObjectBindingPattern n \<or> isArrayBindingPattern n then
        (case getArray n ''elements'' of
           None \<Rightarrow> []
         | Some els \<Rightarrow> concat (map (\<lambda>el. if isBindingElement el then bindingTargets el else []) els))
      else if isBindingElement n then
        (case getProp n ''name'' of None \<Rightarrow> [] | Some name \<Rightarrow> bindingTargets name)
      else [])"
  by pat_completeness auto
termination
proof (relation "measure size", goal_cases)
  case 1 show ?case by simp
next
  case (2 n els el)
  then have "size el \<le> size_list size els" by (simp add: size_list_estimation')
  moreover from 2 have "size_list size els < size n" by (auto dest: size_getArray)
  ultimately show ?case by simp
next
  case (3 n name)
  then show ?case by (auto dest: size_getProp)
qed

declare bindingTargets.simps [simp del]

function parameterTargets :: "node \<Rightarrow> nat list" where
  "parameterTargets n =
     (if isParameter n
      then (case getProp n ''name'' of None \<Rightarrow> [] | Some name \<Rightarrow> bindingTargets name)
      else [])
     @ concat (map parameterTargets (forEachChild n))"
  by pat_completeness auto
termination
  by (relation "measure size") (auto simp: size_child_of)

declare parameterTargets.simps [simp del]

text \<open>
  \<open>recordsOnly A st st'\<close>: from \<open>st\<close> to \<open>st'\<close> every scope's list of references has only
  grown, and only by references to identifiers whose identity is in \<open>A\<close>.
\<close>

definition recordsOnly :: "nat set \<Rightarrow> Store \<Rightarrow> Store \<Rightarrow> bool" where
  "recordsOnly A st st' \<longleftrightarrow>
     length (scopes st') = length (scopes st) \<and>
     (\<forall>s < length (scopes st).
        \<exists>new. scopeReferences (scopes st' ! s) = scopeReferences (scopes st ! s) @ new \<and>
              (\<forall>r \<in> set new. nodeId (refIdentifier r) \<in> A))"

text \<open>
  The identifiers a visit of \<open>n\<close> with the flag \<open>collectReferences = c\<close> may record: those
  of \<open>n\<close> that are no target of a parameter and, when \<open>c\<close> is false, no binding target
  of \<open>n\<close> itself.
\<close>

definition patternish :: "node \<Rightarrow> bool" where
  "patternish n \<longleftrightarrow> isObjectBindingPattern n \<or> isArrayBindingPattern n \<or> isBindingElement n"

definition mayRecord :: "node \<Rightarrow> bool \<Rightarrow> nat set" where
  "mayRecord n c =
     set (nodeIds n) - (set (parameterTargets n) \<union> (if c then {} else set (bindingTargets n)))"

section \<open>What a visit of the scope builder may change\<close>






text \<open>
  \<open>hoistChain st sc\<close> are the scopes that the loop of \<open>addBinding\<close> walks through from
  \<open>sc\<close>: \<open>sc\<close> itself and, as long as the scope at hand is not of kind \<open>FunctionScope\<close>,
  its parent.  \<open>builds sc st st'\<close>: \<open>st'\<close> is \<open>st\<close> grown, with parents still older than
  their children, declarations only appended, and the binding tables of the scopes of \<open>st\<close>
  outside the chain of \<open>sc\<close> untouched.
\<close>

inductive_set hoistChain :: "Store \<Rightarrow> scope_ref \<Rightarrow> scope_ref set" for st :: Store and sc :: scope_ref where
  receiver: "sc \<in> hoistChain st sc"
| parent: "t \<in> hoistChain st sc \<Longrightarrow> scopeKind (scopes st ! t) \<noteq> FunctionScope \<Longrightarrow>
           parentScope (scopes st ! t) = Some u \<Longrightarrow> u \<in> hoistChain st sc"


section \<open>Observations\<close>

text \<open>What is observed of a result.\<close>

definition referencesOf :: "builder result \<Rightarrow> scope_ref \<Rightarrow> ScopeReference list result" where
  "referencesOf r s = andThen r (\<lambda>this. ok (scopeReferences (scopes (fst this) ! s)))"

definition recordedTexts :: "builder result \<Rightarrow> scope_ref \<Rightarrow> string list result" where
  "recordedTexts r s =
     andThen r (\<lambda>this. ok (map (\<lambda>ref. nodeText (refIdentifier ref)) (scopeReferences (scopes (fst this) ! s))))"

definition recordedIdentifiers :: "builder result \<Rightarrow> scope_ref \<Rightarrow> node list result" where
  "recordedIdentifiers r s =
     andThen r (\<lambda>this. ok (map refIdentifier (scopeReferences (scopes (fst this) ! s))))"

definition scopeAssigned :: "builder result \<Rightarrow> nat \<Rightarrow> scope_ref option result" where
  "scopeAssigned r k = andThen r (\<lambda>this. ok (snd this k))"

definition ownBindingOf :: "builder result \<Rightarrow> scope_ref \<Rightarrow> string \<Rightarrow> binding_ref option result" where
  "ownBindingOf r s name = andThen r (\<lambda>this. ok (map_of (bindings (scopes (fst this) ! s)) name))"

definition scopeForNodeAfterConstruction :: "node \<Rightarrow> node \<Rightarrow> scope_ref result" where
  "scopeForNodeAfterConstruction sourceFile node =
     andThen (newSourceFileScopesContainer sourceFile)
       (\<lambda>this. case getScopeForNode this node of Inl e \<Rightarrow> throw e | Inr scope \<Rightarrow> ok scope)"

section \<open>Example inputs\<close>

text \<open>Kinds the analysis does not tell apart, named for the examples.\<close>

abbreviation VariableStatement :: SyntaxKind where "VariableStatement \<equiv> OtherKind 1"
abbreviation EndOfFileToken :: SyntaxKind where "EndOfFileToken \<equiv> OtherKind 2"
abbreviation StringLiteral :: SyntaxKind where "StringLiteral \<equiv> OtherKind 3"
abbreviation PlusToken :: SyntaxKind where "PlusToken \<equiv> OtherKind 4"

definition exampleNode :: node where
  "exampleNode = Node 0 SourceFile [] 0 []"

definition exampleDecl :: "ScopeKind \<Rightarrow> ScopeBindingDeclaration" where
  "exampleDecl k =
     \<lparr>declaringNode = exampleNode, bindingScopeKind = k, bindingIdentifier = ''x'',
      mutability = Mutable, references = []\<rparr>"

definition exampleStore :: Store where
  "exampleStore =
     \<lparr>scopes =
        [(newScope FunctionScope exampleNode None)\<lparr>bindings := [(''x'', 0)], childScopes := [1]\<rparr>,
         (newScope LexicalScope exampleNode (Some 0))\<lparr>bindings := [(''x'', 1)], childScopes := [2]\<rparr>,
         newScope LexicalScope exampleNode (Some 1)],
      decls = [exampleDecl FunctionScope, exampleDecl LexicalScope]\<rparr>"




definition assignMissing :: node where
  "assignMissing =
     Node 0 SourceFile [] 0
       [(''statements'', Array
          [Node 1 ExpressionStatement [] 0
             [(''expression'', Single
                (Node 2 BinaryExpression [] 0
                   [(''left'', Single (Node 3 Identifier ''x'' 0 [])),
                    (''operatorToken'', Single (Node 4 EqualsToken [] 0 [])),
                    (''right'', Single
                       (Node 5 BinaryExpression [] 0
                          [(''left'', Single (Node 6 Identifier [] 0 [])),
                           (''operatorToken'', Single (Node 7 EqualsToken [] 0 [])),
                           (''right'', Single (Node 8 Identifier ''y'' 0 []))]))]))]]),
        (''endOfFileToken'', Single (Node 9 EndOfFileToken [] 0 []))]"

definition classComputed :: node where
  "classComputed =
     Node 0 SourceFile [] 0
       [(''statements'', Array
          [Node 1 ClassDeclaration [] 0
             [(''name'', Single (Node 2 Identifier ''C'' 0 [])),
              (''members'', Array
                 [Node 3 MethodDeclaration [] 0
                    [(''name'', Single
                        (Node 4 ComputedPropertyName [] 0
                           [(''expression'', Single
                               (Node 5 BinaryExpression [] 0
                                  [(''left'', Single (Node 6 StringLiteral ''a'' 0 [])),
                                   (''operatorToken'', Single (Node 7 PlusToken [] 0 [])),
                                   (''right'', Single (Node 8 StringLiteral ''b'' 0 []))]))])),
                     (''parameters'', Array []),
                     (''body'', Single (Node 9 Block [] 0 [(''statements'', Array [])]))]])]]),
        (''endOfFileToken'', Single (Node 10 EndOfFileToken [] 0 []))]"

definition constDestructure :: node where
  "constDestructure =
     Node 0 SourceFile [] 0
       [(''statements'', Array
          [Node 1 VariableStatement [] 0
             [(''declarationList'', Single
                (Node 2 VariableDeclarationList [] 2
                   [(''declarations'', Array
                      [Node 3 VariableDeclaration [] 0
                         [(''name'', Single
                             (Node 4 ObjectBindingPattern [] 0
                                [(''elements'', Array
                                    [Node 5 BindingElement [] 0
                                       [(''name'', Single (Node 6 Identifier ''a'' 0 []))]])])),
                          (''initializer'', Single (Node 7 Identifier ''b'' 0 []))]])]))]]),
        (''endOfFileToken'', Single (Node 8 EndOfFileToken [] 0 []))]"




definition allInRoot :: "nat \<Rightarrow> scopes_map" where
  "allInRoot n k = (if k < n then Some 0 else None)"

definition functionDestructure :: node where
  "functionDestructure =
     Node 0 SourceFile [] 0
       [(''statements'', Array
          [Node 1 FunctionDeclaration [] 0
             [(''name'', Single (Node 2 Identifier ''f'' 0 [])),
              (''parameters'', Array
                 [Node 3 Parameter [] 0
                    [(''name'', Single
                        (Node 4 ObjectBindingPattern [] 0
                           [(''elements'', Array
                               [Node 5 BindingElement [] 0
                                  [(''name'', Single (Node 6 Identifier ''a'' 0 []))]])]))]]),
              (''body'', Single
                 (Node 7 Block [] 0
                    [(''statements'', Array
                        [Node 8 ReturnStatement [] 0
                           [(''expression'', Single (Node 9 Identifier ''a'' 0 []))]])]))]]),
        (''endOfFileToken'', Single (Node 10 EndOfFileToken [] 0 []))]"

definition rootStore :: "node \<Rightarrow> Store" where
  "rootStore sourceFile = \<lparr>scopes = [newScope FunctionScope sourceFile None], decls = []\<rparr>"


















section \<open>Properties of the scope tree\<close>

lemma parentsOlderD:
  "parentsOlder st \<Longrightarrow> s < length (scopes st) \<Longrightarrow> parentScope (scopes st ! s) = Some p \<Longrightarrow> p < s"
  by (auto simp: parentsOlder_def list_all_iff split: option.splits)

lemma rootsAreFunctionScopesD:
  "rootsAreFunctionScopes st \<Longrightarrow> s < length (scopes st) \<Longrightarrow> parentScope (scopes st ! s) = None
     \<Longrightarrow> scopeKind (scopes st ! s) = FunctionScope"
  by (auto simp: rootsAreFunctionScopes_def list_all_iff)

lemma bindingsValidD:
  "bindingsValid st \<Longrightarrow> s < length (scopes st) \<Longrightarrow> map_of (bindings (scopes st ! s)) name = Some b
     \<Longrightarrow> b < length (decls st)"
  by (auto simp: bindingsValid_def list_all_iff dest!: map_of_SomeD nth_mem)

lemma ancestor_parent:
  "parentScope (scopes st ! s) = Some p \<Longrightarrow> ancestor st (Suc k) s = ancestor st k p"
  by simp

lemma ancestor_valid:
  "parentsOlder st \<Longrightarrow> s < length (scopes st) \<Longrightarrow> ancestor st k s = Some t \<Longrightarrow> t \<le> s"
proof (induction k arbitrary: s)
  case 0
  then show ?case by simp
next
  case (Suc k)
  then obtain p where p: "parentScope (scopes st ! s) = Some p" "ancestor st k p = Some t"
    by (auto split: option.splits)
  with Suc.prems have ps: "p < s" by (auto dest: parentsOlderD)
  with Suc.prems have "p < length (scopes st)" by simp
  from Suc.IH[OF Suc.prems(1) this p(2)] ps show ?case by simp
qed

lemma getBinding_returns:
  assumes "parentsOlder st" and "this < length (scopes st)"
  shows "\<exists>r. getBinding st this name = Some r \<and>
     (r = None \<longleftrightarrow> (\<forall>k t. ancestor st k this = Some t \<longrightarrow> map_of (bindings (scopes st ! t)) name = None)) \<and>
     (\<forall>decl owner. r = Some (decl, owner) \<longrightarrow>
        (\<exists>k. ancestor st k this = Some owner \<and> map_of (bindings (scopes st ! owner)) name = Some decl \<and>
             (\<forall>j<k. \<exists>u. ancestor st j this = Some u \<and> map_of (bindings (scopes st ! u)) name = None)))"
  using assms(2)
proof (induction this rule: less_induct)
  case (less s)
  show ?case
  proof (cases "map_of (bindings (scopes st ! s)) name")
    case (Some d)
    have g: "getBinding st s name = Some (Some (d, s))"
      by (subst getBinding.simps) (simp add: Some)
    have a0: "ancestor st 0 s = Some s" by simp
    show ?thesis
      apply (rule exI[of _ "Some (d, s)"])
      apply (intro conjI)
        apply (rule g)
       apply (metis Some a0 option.distinct(1))
      apply (intro allI impI)
      apply (rule exI[of _ 0])
      using Some by simp
  next
    case None
    note own = None
    show ?thesis
    proof (cases "parentScope (scopes st ! s)")
      case None
      have g: "getBinding st s name = Some None"
        by (subst getBinding.simps) (simp add: own None)
      have "\<And>k t. ancestor st k s = Some t \<Longrightarrow> map_of (bindings (scopes st ! t)) name = None"
      proof -
        fix k t assume "ancestor st k s = Some t"
        then show "map_of (bindings (scopes st ! t)) name = None"
          using own None by (cases k) auto
      qed
      with g show ?thesis by auto
    next
      case (Some p)
      then have pl: "p < s" using less.prems assms(1) by (auto dest: parentsOlderD)
      then have "p < length (scopes st)" using less.prems by simp
      from less.IH[OF pl this] obtain r where
        r: "getBinding st p name = Some r"
        and rn: "r = None \<longleftrightarrow> (\<forall>k t. ancestor st k p = Some t \<longrightarrow> map_of (bindings (scopes st ! t)) name = None)"
        and rs: "\<forall>decl owner. r = Some (decl, owner) \<longrightarrow>
        (\<exists>k. ancestor st k p = Some owner \<and> map_of (bindings (scopes st ! owner)) name = Some decl \<and>
             (\<forall>j<k. \<exists>u. ancestor st j p = Some u \<and> map_of (bindings (scopes st ! u)) name = None))"
        by blast
      have g: "getBinding st s name = Some r"
        by (subst getBinding.simps) (simp add: own Some r)
      have shift: "\<And>k. ancestor st (Suc k) s = ancestor st k p" using Some by simp
      have n1: "r = None \<longleftrightarrow> (\<forall>k t. ancestor st k s = Some t \<longrightarrow> map_of (bindings (scopes st ! t)) name = None)"
      proof
        assume "r = None"
        with rn have h: "\<And>k t. ancestor st k p = Some t \<Longrightarrow> map_of (bindings (scopes st ! t)) name = None" by blast
        show "\<forall>k t. ancestor st k s = Some t \<longrightarrow> map_of (bindings (scopes st ! t)) name = None"
        proof (intro allI impI)
          fix k t assume a: "ancestor st k s = Some t"
          show "map_of (bindings (scopes st ! t)) name = None"
          proof (cases k)
            case 0 with a own show ?thesis by simp
          next
            case (Suc k') with a shift h show ?thesis by metis
          qed
        qed
      next
        assume h: "\<forall>k t. ancestor st k s = Some t \<longrightarrow> map_of (bindings (scopes st ! t)) name = None"
        have "\<forall>k t. ancestor st k p = Some t \<longrightarrow> map_of (bindings (scopes st ! t)) name = None"
          using h shift by metis
        with rn show "r = None" by blast
      qed
      have n2: "\<forall>decl owner. r = Some (decl, owner) \<longrightarrow>
        (\<exists>k. ancestor st k s = Some owner \<and> map_of (bindings (scopes st ! owner)) name = Some decl \<and>
             (\<forall>j<k. \<exists>u. ancestor st j s = Some u \<and> map_of (bindings (scopes st ! u)) name = None))"
      proof (intro allI impI)
        fix decl owner assume "r = Some (decl, owner)"
        with rs obtain k where k: "ancestor st k p = Some owner" "map_of (bindings (scopes st ! owner)) name = Some decl"
          "\<forall>j<k. \<exists>u. ancestor st j p = Some u \<and> map_of (bindings (scopes st ! u)) name = None" by blast
        have "\<forall>j<Suc k. \<exists>u. ancestor st j s = Some u \<and> map_of (bindings (scopes st ! u)) name = None"
        proof (intro allI impI)
          fix j assume j: "j < Suc k"
          show "\<exists>u. ancestor st j s = Some u \<and> map_of (bindings (scopes st ! u)) name = None"
          proof (cases j)
            case 0 then show ?thesis using own by simp
          next
            case (Suc j') with j k(3) shift show ?thesis by (metis Suc_less_eq)
          qed
        qed
        with k(1,2) shift show "\<exists>k. ancestor st k s = Some owner \<and> map_of (bindings (scopes st ! owner)) name = Some decl \<and>
             (\<forall>j<k. \<exists>u. ancestor st j s = Some u \<and> map_of (bindings (scopes st ! u)) name = None)"
          by (intro exI[of _ "Suc k"]) metis
      qed
      from g n1 n2 show ?thesis by blast
    qed
  qed
qed


text \<open>
  Claim C3.  In a store the program can build, \<open>S.getBinding(n)\<close> returns.  It returns the
  binding and the scope of the nearest scope on the chain \<open>S\<close>, \<open>S.parentScope\<close>, ... whose
  own table has an entry for \<open>n\<close> (every scope before it on the chain has none, so an inner
  binding shadows an outer one of the same name), and it returns \<open>null\<close> exactly when no
  scope on the chain has an entry for \<open>n\<close>.
\<close>

theorem getBinding_nearest:
  assumes "parentsOlder st" and "this < length (scopes st)"
  shows "\<exists>r. getBinding st this name = Some r \<and>
     (r = None \<longleftrightarrow> (\<forall>k t. ancestor st k this = Some t \<longrightarrow> map_of (bindings (scopes st ! t)) name = None)) \<and>
     (\<forall>decl owner. r = Some (decl, owner) \<longrightarrow>
        (\<exists>k. ancestor st k this = Some owner \<and> map_of (bindings (scopes st ! owner)) name = Some decl \<and>
             (\<forall>j<k. \<exists>u. ancestor st j this = Some u \<and> map_of (bindings (scopes st ! u)) name = None)))"
  using assms by (rule getBinding_returns)

lemma addBindingLoop_total:
  assumes "parentsOlder st" and "rootsAreFunctionScopes st" and "this < length (scopes st)"
  shows "\<exists>k target. addBindingLoop st (Some this) = Some (Some target) \<and>
           ancestor st k this = Some target \<and>
           scopeKind (scopes st ! target) = FunctionScope \<and>
           (\<forall>j<k. \<exists>u. ancestor st j this = Some u \<and> scopeKind (scopes st ! u) \<noteq> FunctionScope)"
  using assms(3)
proof (induction this rule: less_induct)
  case (less s)
  show ?case
  proof (cases "scopeKind (scopes st ! s) = FunctionScope")
    case True
    have "addBindingLoop st (Some s) = Some (Some s)"
      by (subst addBindingLoop.simps) (simp add: True)
    with True show ?thesis
      by (intro exI[of _ 0] exI[of _ s]) simp
  next
    case False
    with assms(2) less.prems obtain p where p: "parentScope (scopes st ! s) = Some p"
      by (cases "parentScope (scopes st ! s)") (auto dest: rootsAreFunctionScopesD)
    with assms(1) less.prems have pl: "p < s" by (auto dest: parentsOlderD)
    with less.prems have "p < length (scopes st)" by simp
    from less.IH[OF pl this] obtain k target where
      kt: "addBindingLoop st (Some p) = Some (Some target)" "ancestor st k p = Some target"
          "scopeKind (scopes st ! target) = FunctionScope"
          "\<forall>j<k. \<exists>u. ancestor st j p = Some u \<and> scopeKind (scopes st ! u) \<noteq> FunctionScope"
      by blast
    have g: "addBindingLoop st (Some s) = Some (Some target)"
      by (subst addBindingLoop.simps) (simp add: False p kt(1))
    have shift: "\<And>k. ancestor st (Suc k) s = ancestor st k p" using p by simp
    have "\<forall>j<Suc k. \<exists>u. ancestor st j s = Some u \<and> scopeKind (scopes st ! u) \<noteq> FunctionScope"
    proof (intro allI impI)
      fix j assume j: "j < Suc k"
      show "\<exists>u. ancestor st j s = Some u \<and> scopeKind (scopes st ! u) \<noteq> FunctionScope"
      proof (cases j)
        case 0 then show ?thesis using False by simp
      next
        case (Suc j') with j kt(4) shift show ?thesis by (metis Suc_less_eq)
      qed
    qed
    with g kt(2,3) shift[of k] show ?thesis
      by (intro exI[of _ "Suc k"] exI[of _ target]) simp
  qed
qed

lemma bindingsSet_lookup:
  assumes "s < length (scopes st)"
  shows "map_of (bindings (scopes (bindingsSet st s name d) ! s)) name = Some (length (decls st))"
    and "decls (bindingsSet st s name d) ! length (decls st) = d"
  using assms by (simp_all add: bindingsSet_def update_conv')

text \<open>
  Claim C1.  \<open>addBinding\<close> returns without throwing in every store whose parentless scopes
  are of kind \<open>FunctionScope\<close>.  A binding tagged \<open>LexicalScope\<close> is stored in the
  receiver's own table.  A binding tagged \<open>FunctionScope\<close> is stored in the table of the
  nearest scope of kind \<open>FunctionScope\<close> on the chain receiver, parent, grandparent, ...
  (the receiver included): every scope before it on the chain is of another kind.
\<close>

theorem addBinding_placement:
  assumes "parentsOlder st" and "rootsAreFunctionScopes st" and "this < length (scopes st)"
  shows "\<exists>st'. addBinding st this name d = ok st' \<and>
     (bindingScopeKind d = LexicalScope \<longrightarrow> st' = bindingsSet st this name d \<and> storedIn st' this name d) \<and>
     (bindingScopeKind d = FunctionScope \<longrightarrow>
        (\<exists>k target. ancestor st k this = Some target \<and>
            scopeKind (scopes st ! target) = FunctionScope \<and>
            (\<forall>j<k. \<exists>u. ancestor st j this = Some u \<and> scopeKind (scopes st ! u) \<noteq> FunctionScope) \<and>
            st' = bindingsSet st target name d \<and> storedIn st' target name d))"
proof (cases "bindingScopeKind d")
  case LexicalScope
  then show ?thesis
    using assms(3) by (simp add: addBinding_def storedIn_def bindingsSet_lookup)
next
  case FunctionScope
  from addBindingLoop_total[OF assms] obtain k target where
    kt: "addBindingLoop st (Some this) = Some (Some target)" "ancestor st k this = Some target"
        "scopeKind (scopes st ! target) = FunctionScope"
        "\<forall>j<k. \<exists>u. ancestor st j this = Some u \<and> scopeKind (scopes st ! u) \<noteq> FunctionScope"
    by blast
  from ancestor_valid[OF assms(1) assms(3) kt(2)] assms(3) have tl: "target < length (scopes st)" by simp
  have a: "addBinding st this name d = ok (bindingsSet st target name d)"
    by (simp add: addBinding_def FunctionScope kt(1))
  have s: "storedIn (bindingsSet st target name d) target name d"
    using tl by (simp add: storedIn_def bindingsSet_lookup)
  from a s kt FunctionScope show ?thesis by auto
qed

text \<open>
  Claim C4.  \<open>S.addReference(id, writeExpr, isInitializer)\<close> returns, and never throws.  It
  appends exactly one reference to the list of \<open>S\<close> and leaves every other scope as it
  was; the reference's \<open>referenceTo\<close> is the result of \<open>S.getBinding(id.text)\<close>, absent when
  that is \<open>null\<close>.  When the name resolves, the same reference is appended to the list of
  the binding found and no other binding changes; when it does not, no binding changes.
\<close>

theorem addReference_appends:
  assumes "parentsOlder st" and "bindingsValid st" and "this < length (scopes st)"
  shows "\<exists>r st'. getBinding st this (nodeText nd) = Some r \<and>
     addReference st this nd w i = Some st' \<and>
     length (scopes st') = length (scopes st) \<and>
     length (decls st') = length (decls st) \<and>
     (let reference = \<lparr>refIdentifier = nd, referenceTo = r, referencedFromScope = this,
                       writeExpr = w, isInitializer = i\<rparr>
      in scopeReferences (scopes st' ! this) = scopeReferences (scopes st ! this) @ [reference] \<and>
         (\<forall>s. s \<noteq> this \<longrightarrow> scopes st' ! s = scopes st ! s) \<and>
         (case r of
            None \<Rightarrow> decls st' = decls st
          | Some (b, owner) \<Rightarrow>
              references (decls st' ! b) = references (decls st ! b) @ [reference] \<and>
              (\<forall>b'. b' \<noteq> b \<longrightarrow> decls st' ! b' = decls st ! b')))"
proof -
  from getBinding_returns[OF assms(1) assms(3), of "nodeText nd"] obtain r where
    r: "getBinding st this (nodeText nd) = Some r"
    and rs: "\<forall>decl owner. r = Some (decl, owner) \<longrightarrow>
        (\<exists>k. ancestor st k this = Some owner \<and> map_of (bindings (scopes st ! owner)) (nodeText nd) = Some decl \<and>
             (\<forall>j<k. \<exists>u. ancestor st j this = Some u \<and> map_of (bindings (scopes st ! u)) (nodeText nd) = None))"
    by blast
  show ?thesis
  proof (cases r)
    case None
    with r assms(3) show ?thesis
      by (simp add: addReference_def scopeReferencesPush_def Let_def)
  next
    case (Some bo)
    obtain b owner where bo: "bo = (b, owner)" by (cases bo)
    with Some rs obtain k where k: "ancestor st k this = Some owner"
      "map_of (bindings (scopes st ! owner)) (nodeText nd) = Some b" by blast
    from ancestor_valid[OF assms(1) assms(3) k(1)] assms(3) have "owner < length (scopes st)" by simp
    from bindingsValidD[OF assms(2) this k(2)] have bl: "b < length (decls st)" .
    with r Some bo assms(3) show ?thesis
      by (simp add: addReference_def scopeReferencesPush_def bindingReferencesPush_def Let_def)
  qed
qed


lemma exampleStore_ok:
  "parentsOlder exampleStore" "rootsAreFunctionScopes exampleStore" "bindingsValid exampleStore"
  "2 < length (scopes exampleStore)"
  by (simp_all add: parentsOlder_def rootsAreFunctionScopes_def bindingsValid_def exampleStore_def
        newScope_def upt_conv_Cons)

theorem getBinding_nearest_witness:
  "parentsOlder exampleStore \<and> 2 < length (scopes exampleStore) \<and>
   getBinding exampleStore 2 ''x'' = Some (Some (1, 1)) \<and>
   (\<exists>k. ancestor exampleStore k 2 = Some 1 \<and>
          map_of (bindings (scopes exampleStore ! 1)) ''x'' = Some 1 \<and>
          (\<forall>j<k. \<exists>u. ancestor exampleStore j 2 = Some u \<and>
                   map_of (bindings (scopes exampleStore ! u)) ''x'' = None))"
proof -
  have v: "getBinding exampleStore 2 ''x'' = Some (Some (1, 1))"
    by (simp add: getBinding.simps exampleStore_def newScope_def)
  from getBinding_nearest[OF exampleStore_ok(1) exampleStore_ok(4), of "''x''"] v
  show ?thesis using exampleStore_ok by auto
qed

theorem addBinding_placement_witness:
  "parentsOlder exampleStore \<and> rootsAreFunctionScopes exampleStore \<and>
   2 < length (scopes exampleStore) \<and>
   addBinding exampleStore 2 ''y'' (exampleDecl FunctionScope)
     = ok (bindingsSet exampleStore 0 ''y'' (exampleDecl FunctionScope)) \<and>
   addBinding exampleStore 2 ''y'' (exampleDecl LexicalScope)
     = ok (bindingsSet exampleStore 2 ''y'' (exampleDecl LexicalScope)) \<and>
   (\<exists>st' k target. addBinding exampleStore 2 ''y'' (exampleDecl FunctionScope) = ok st' \<and>
          ancestor exampleStore k 2 = Some target \<and>
          scopeKind (scopes exampleStore ! target) = FunctionScope \<and>
          storedIn st' target ''y'' (exampleDecl FunctionScope))"
proof -
  have v: "addBinding exampleStore 2 ''y'' (exampleDecl FunctionScope)
     = ok (bindingsSet exampleStore 0 ''y'' (exampleDecl FunctionScope))"
    "addBinding exampleStore 2 ''y'' (exampleDecl LexicalScope)
     = ok (bindingsSet exampleStore 2 ''y'' (exampleDecl LexicalScope))"
    by (simp_all add: addBinding_def addBindingLoop.simps exampleStore_def newScope_def exampleDecl_def)
  have k: "bindingScopeKind (exampleDecl FunctionScope) = FunctionScope"
    by (simp add: exampleDecl_def)
  from addBinding_placement[OF exampleStore_ok(1,2,4), of "''y''" "exampleDecl FunctionScope"] k
  have "\<exists>st' k target. addBinding exampleStore 2 ''y'' (exampleDecl FunctionScope) = ok st' \<and>
          ancestor exampleStore k 2 = Some target \<and>
          scopeKind (scopes exampleStore ! target) = FunctionScope \<and>
          storedIn st' target ''y'' (exampleDecl FunctionScope)"
    by blast
  with v exampleStore_ok show ?thesis by blast
qed

theorem addReference_appends_witness:
  "parentsOlder exampleStore \<and> bindingsValid exampleStore \<and> 2 < length (scopes exampleStore) \<and>
   (\<exists>st'. addReference exampleStore 2 (Node 7 Identifier ''x'' 0 []) None False = Some st' \<and>
      scopeReferences (scopes st' ! 2) =
        [\<lparr>refIdentifier = Node 7 Identifier ''x'' 0 [], referenceTo = Some (1, 1),
          referencedFromScope = 2, writeExpr = None, isInitializer = False\<rparr>] \<and>
      references (decls st' ! 1) =
        [\<lparr>refIdentifier = Node 7 Identifier ''x'' 0 [], referenceTo = Some (1, 1),
          referencedFromScope = 2, writeExpr = None, isInitializer = False\<rparr>] \<and>
      references (decls st' ! 0) = [])"
proof -
  have v: "getBinding exampleStore 2 ''x'' = Some (Some (1, 1))"
    by (simp add: getBinding.simps exampleStore_def newScope_def)
  have e: "scopeReferences (scopes exampleStore ! 2) = []" "references (decls exampleStore ! 1) = []"
    "references (decls exampleStore ! 0) = []"
    by (simp_all add: exampleStore_def newScope_def exampleDecl_def)
  from addReference_appends[OF exampleStore_ok(1,3,4), of "Node 7 Identifier ''x'' 0 []" None False]
  show ?thesis using v e exampleStore_ok by (auto simp: Let_def)
qed

section \<open>Properties of reference resolution\<close>







lemma sameTables_refl: "sameTables a a"
  by (simp add: sameTables_def)













section \<open>Properties of the scope builder\<close>





lemma andThen_ok [simp]: "andThen (ok x) f = f x"
  by (simp add: andThen_def ok_def)

lemma andThen_throw [simp]: "andThen (throw e) f = throw e"
  by (simp add: andThen_def throw_def)


lemma newBinding_simps [simp]:
  "bindingScopeKind (newBinding n k name m) = k"
  "mutability (newBinding n k name m) = m"
  "bindingIdentifier (newBinding n k name m) = name"
  "declaringNode (newBinding n k name m) = n"
  "references (newBinding n k name m) = []"
  by (simp_all add: newBinding_def)


section \<open>Which identifiers reference resolution records\<close>

lemma recordsOnly_refl: "recordsOnly A st st"
  by (simp add: recordsOnly_def)

lemma recordsOnly_mono: "recordsOnly A st st' \<Longrightarrow> A \<subseteq> B \<Longrightarrow> recordsOnly B st st'"
  unfolding recordsOnly_def by blast

lemma recordsOnly_trans:
  assumes "recordsOnly A st st1" and "recordsOnly A st1 st2"
  shows "recordsOnly A st st2"
  unfolding recordsOnly_def
proof (intro conjI allI impI)
  show "length (scopes st2) = length (scopes st)"
    using assms by (simp add: recordsOnly_def)
  fix s assume s: "s < length (scopes st)"
  with assms(1) obtain n1 where n1: "scopeReferences (scopes st1 ! s) = scopeReferences (scopes st ! s) @ n1"
    "\<forall>r \<in> set n1. nodeId (refIdentifier r) \<in> A"
    unfolding recordsOnly_def by blast
  from s assms(1) have "s < length (scopes st1)" by (simp add: recordsOnly_def)
  with assms(2) obtain n2 where n2: "scopeReferences (scopes st2 ! s) = scopeReferences (scopes st1 ! s) @ n2"
    "\<forall>r \<in> set n2. nodeId (refIdentifier r) \<in> A"
    unfolding recordsOnly_def by blast
  show "\<exists>new. scopeReferences (scopes st2 ! s) = scopeReferences (scopes st ! s) @ new \<and>
              (\<forall>r \<in> set new. nodeId (refIdentifier r) \<in> A)"
    using n1 n2 by (intro exI[of _ "n1 @ n2"]) auto
qed

lemma addReference_recordsOnly:
  assumes "addReference st s nd w i = Some st'" and "nodeId nd \<in> A"
  shows "recordsOnly A st st'"
proof -
  from assms(1) obtain r st1 where
    st': "st' = scopeReferencesPush st1 s
            \<lparr>refIdentifier = nd, referenceTo = r, referencedFromScope = s, writeExpr = w, isInitializer = i\<rparr>"
    and s1: "scopes st1 = scopes st"
    by (auto simp: addReference_def Let_def bindingReferencesPush_def split: option.splits)
  show ?thesis
    unfolding recordsOnly_def st' scopeReferencesPush_def
  proof (intro conjI allI impI)
    show "length (scopes (st1\<lparr>scopes := (scopes st1)[s := (scopes st1 ! s)
            \<lparr>scopeReferences := scopeReferences (scopes st1 ! s) @
               [\<lparr>refIdentifier = nd, referenceTo = r, referencedFromScope = s, writeExpr = w, isInitializer = i\<rparr>]\<rparr>]\<rparr>))
          = length (scopes st)" by (simp add: s1)
    fix t assume t: "t < length (scopes st)"
    show "\<exists>new. scopeReferences (scopes (st1\<lparr>scopes := (scopes st1)[s := (scopes st1 ! s)
            \<lparr>scopeReferences := scopeReferences (scopes st1 ! s) @
               [\<lparr>refIdentifier = nd, referenceTo = r, referencedFromScope = s, writeExpr = w, isInitializer = i\<rparr>]\<rparr>]\<rparr>) ! t)
            = scopeReferences (scopes st ! t) @ new \<and> (\<forall>r \<in> set new. nodeId (refIdentifier r) \<in> A)"
    proof (cases "t = s")
      case True
      with t assms(2) show ?thesis by (simp add: s1)
    next
      case False
      then show ?thesis by (simp add: s1)
    qed
  qed
qed

lemma nodeId_in_nodeIds: "nodeId n \<in> set (nodeIds n)"
  by (subst nodeIds.simps) simp

lemma nodeIds_child_subset: "ch \<in> set (forEachChild n) \<Longrightarrow> set (nodeIds ch) \<subseteq> set (nodeIds n)"
  by (subst (2) nodeIds.simps) auto

lemma distinct_child:
  assumes "distinct (nodeIds n)" and "ch \<in> set (forEachChild n)"
  shows "distinct (nodeIds ch)" and "nodeId n \<notin> set (nodeIds ch)"
proof -
  from assms(1) have d: "distinct (concat (map nodeIds (forEachChild n)))"
    and n: "nodeId n \<notin> set (concat (map nodeIds (forEachChild n)))"
    by (subst (asm) nodeIds.simps, simp)+
  from d assms(2) show "distinct (nodeIds ch)" by (auto simp: distinct_concat_iff)
  from n assms(2) show "nodeId n \<notin> set (nodeIds ch)" by auto
qed

lemma nodeIds_nonempty: "nodeIds n \<noteq> []"
  by (subst nodeIds.simps) simp

lemma distinct_children_disjoint:
  assumes "distinct (nodeIds n)" and "ch \<in> set (forEachChild n)" and "ch' \<in> set (forEachChild n)"
    and "ch \<noteq> ch'"
  shows "set (nodeIds ch) \<inter> set (nodeIds ch') = {}"
proof -
  from assms(1) have d: "distinct (concat (map nodeIds (forEachChild n)))"
    by (subst (asm) nodeIds.simps) simp
  have ne: "removeAll [] (map nodeIds (forEachChild n)) = map nodeIds (forEachChild n)"
    by (rule removeAll_id) (auto simp: nodeIds_nonempty[symmetric])
  from d have dm: "distinct (map nodeIds (forEachChild n))"
    by (simp add: distinct_concat_iff ne)
  then have "inj_on nodeIds (set (forEachChild n))" by (simp add: distinct_map)
  with assms(2-4) have "nodeIds ch \<noteq> nodeIds ch'" by (auto dest: inj_onD)
  with d assms(2,3) show ?thesis by (auto simp: distinct_concat_iff)
qed

lemma getChild_children: "getChild n p = Some v \<Longrightarrow> set (propNodes v) \<subseteq> set (forEachChild n)"
  by (auto simp: getChild_def forEachChild_def dest!: map_of_SomeD)

lemma getProp_getChild: "getProp n p = Some c \<longleftrightarrow> getChild n p = Some (Single c)"
  by (auto simp: getProp_def getChild_def split: option.splits child.splits)

lemma getArray_getChild: "getArray n p = Some cs \<longleftrightarrow> getChild n p = Some (Array cs)"
  by (auto simp: getArray_def getChild_def split: option.splits child.splits)

lemma getProp_child: "getProp n p = Some c \<Longrightarrow> c \<in> set (forEachChild n)"
  using getChild_children[of n p "Single c"] by (simp add: getProp_getChild)

lemma getArray_children: "getArray n p = Some cs \<Longrightarrow> set cs \<subseteq> set (forEachChild n)"
  using getChild_children[of n p "Array cs"] by (simp add: getArray_getChild)

lemma bindingTargets_subset: "set (bindingTargets n) \<subseteq> set (nodeIds n)"
proof (induction n rule: bindingTargets.induct)
  case (1 n)
  show ?case
  proof (cases "isIdentifier n")
    case True
    then show ?thesis by (subst bindingTargets.simps) (simp add: nodeId_in_nodeIds)
  next
    case ni: False
    show ?thesis
    proof (cases "isObjectBindingPattern n \<or> isArrayBindingPattern n")
      case True
      show ?thesis
      proof (cases "getArray n ''elements''")
        case None
        with ni True show ?thesis by (subst bindingTargets.simps) auto
      next
        case (Some els)
        have "set (bindingTargets el) \<subseteq> set (nodeIds n)" if "el \<in> set els" "isBindingElement el" for el
        proof -
          from that 1(1)[OF ni True Some] have "set (bindingTargets el) \<subseteq> set (nodeIds el)" by simp
          moreover from that Some have "el \<in> set (forEachChild n)" by (auto dest: getArray_children)
          ultimately show ?thesis using nodeIds_child_subset by blast
        qed
        with ni True Some show ?thesis by (subst bindingTargets.simps) auto
      qed
    next
      case np: False
      show ?thesis
      proof (cases "isBindingElement n")
        case True
        show ?thesis
        proof (cases "getProp n ''name''")
          case None
          with ni np True show ?thesis by (subst bindingTargets.simps) auto
        next
          case (Some name)
          from 1(2)[OF ni np True Some] have "set (bindingTargets name) \<subseteq> set (nodeIds name)" .
          moreover from Some have "name \<in> set (forEachChild n)" by (rule getProp_child)
          ultimately have "set (bindingTargets name) \<subseteq> set (nodeIds n)"
            using nodeIds_child_subset by blast
          with ni np True Some show ?thesis by (subst bindingTargets.simps) auto
        qed
      next
        case False
        with ni np show ?thesis by (subst bindingTargets.simps) auto
      qed
    qed
  qed
qed

lemma parameterTargets_below:
  "set (parameterTargets n) \<subseteq> set (concat (map nodeIds (forEachChild n)))"
proof (induction n rule: parameterTargets.induct)
  case (1 n)
  have own: "set (case getProp n ''name'' of None \<Rightarrow> [] | Some name \<Rightarrow> bindingTargets name)
               \<subseteq> set (concat (map nodeIds (forEachChild n)))"
  proof (cases "getProp n ''name''")
    case None then show ?thesis by simp
  next
    case (Some name)
    then have "name \<in> set (forEachChild n)" by (rule getProp_child)
    with bindingTargets_subset[of name] Some show ?thesis by auto
  qed
  have ch: "set (parameterTargets c) \<subseteq> set (concat (map nodeIds (forEachChild n)))"
    if "c \<in> set (forEachChild n)" for c
  proof -
    from 1[OF that] have "set (parameterTargets c) \<subseteq> set (concat (map nodeIds (forEachChild c)))" .
    also have "\<dots> \<subseteq> set (nodeIds c)" by (subst nodeIds.simps[of c]) auto
    finally show ?thesis using that by auto
  qed
  have eq: "parameterTargets n =
          (if isParameter n
           then (case getProp n ''name'' of None \<Rightarrow> [] | Some name \<Rightarrow> bindingTargets name)
           else [])
          @ concat (map parameterTargets (forEachChild n))"
    by (rule parameterTargets.simps)
  show ?case
  proof (rule subsetI)
    fix x assume "x \<in> set (parameterTargets n)"
    then have "x \<in> set (if isParameter n
           then (case getProp n ''name'' of None \<Rightarrow> [] | Some name \<Rightarrow> bindingTargets name)
           else []) \<or> x \<in> set (concat (map parameterTargets (forEachChild n)))"
      by (subst (asm) eq) (simp only: set_append Un_iff)
    then show "x \<in> set (concat (map nodeIds (forEachChild n)))"
    proof
      assume "x \<in> set (if isParameter n
           then (case getProp n ''name'' of None \<Rightarrow> [] | Some name \<Rightarrow> bindingTargets name)
           else [])"
      then have "x \<in> set (case getProp n ''name'' of None \<Rightarrow> [] | Some name \<Rightarrow> bindingTargets name)"
        by (cases "isParameter n") simp_all
      with own show ?thesis by blast
    next
      assume "x \<in> set (concat (map parameterTargets (forEachChild n)))"
      then obtain c where "c \<in> set (forEachChild n)" "x \<in> set (parameterTargets c)"
        by auto
      with ch show ?thesis by blast
    qed
  qed
qed

lemma parameterTargets_subset: "set (parameterTargets n) \<subseteq> set (nodeIds n)"
  using parameterTargets_below[of n] by (subst nodeIds.simps) auto

lemma nodeId_notin_parameterTargets:
  assumes "distinct (nodeIds n)"
  shows "nodeId n \<notin> set (parameterTargets n)"
proof -
  from assms have "nodeId n \<notin> set (concat (map nodeIds (forEachChild n)))"
    by (subst (asm) nodeIds.simps) simp
  with parameterTargets_below[of n] show ?thesis by blast
qed

text \<open>Two different properties of a node of a tree with distinct identities share no node.\<close>

lemma distinct_props_disjoint_aux:
  assumes "map_of ps p = Some v" and "map_of ps q = Some w" and "p \<noteq> q"
    and "distinct (concat (map nodeIds (concat (map (\<lambda>(k, c). propNodes c) ps))))"
  shows "set (concat (map nodeIds (propNodes v))) \<inter> set (concat (map nodeIds (propNodes w))) = {}"
  using assms
proof (induction ps)
  case Nil
  then show ?case by simp
next
  case (Cons a ps)
  obtain k c where a: "a = (k, c)" by (cases a)
  have sub: "set (concat (map nodeIds (propNodes u)))
               \<subseteq> set (concat (map nodeIds (concat (map (\<lambda>(k, c). propNodes c) ps))))"
    if "map_of ps r = Some u" for r u
    using that by (auto dest!: map_of_SomeD)
  from Cons.prems(4) a have
    d1: "set (concat (map nodeIds (propNodes c)))
          \<inter> set (concat (map nodeIds (concat (map (\<lambda>(k, c). propNodes c) ps)))) = {}"
    and d2: "distinct (concat (map nodeIds (concat (map (\<lambda>(k, c). propNodes c) ps))))"
    by auto
  show ?case
  proof (cases "k = p")
    case True
    with Cons.prems a have v: "v = c" and w: "map_of ps q = Some w" by auto
    from sub[OF w] d1 v show ?thesis by blast
  next
    case kp: False
    show ?thesis
    proof (cases "k = q")
      case True
      with Cons.prems a kp have w: "w = c" and v: "map_of ps p = Some v" by auto
      from sub[OF v] d1 w show ?thesis by blast
    next
      case False
      with kp Cons.prems a have "map_of ps p = Some v" "map_of ps q = Some w" by auto
      from Cons.IH[OF this Cons.prems(3) d2] show ?thesis .
    qed
  qed
qed

lemma distinct_props_disjoint:
  assumes "distinct (nodeIds n)" and "getChild n p = Some v" and "getChild n q = Some w" and "p \<noteq> q"
    and "a \<in> set (propNodes v)" and "b \<in> set (propNodes w)"
  shows "set (nodeIds a) \<inter> set (nodeIds b) = {}"
proof -
  from assms(1) have "distinct (concat (map nodeIds (concat (map (\<lambda>(k, c). propNodes c) (props n)))))"
    by (subst (asm) nodeIds.simps) (simp add: forEachChild_def)
  from distinct_props_disjoint_aux[OF assms(2,3)[unfolded getChild_def] assms(4) this] assms(5,6)
  show ?thesis by auto
qed

lemma andThenE:
  assumes "andThen r f = Some (Inr y)"
  obtains x where "r = Some (Inr x)" "f x = Some (Inr y)"
  using assms by (auto simp: andThen_def split: option.splits sum.splits)

lemma returns_Some: "returns r = Some (Inr y) \<longleftrightarrow> r = Some y"
  by (auto simp: returns_def ok_def split: option.splits)

lemma ok_Some [simp]: "ok x = Some (Inr y) \<longleftrightarrow> x = y"
  by (simp add: ok_def)

lemma throw_Some [simp]: "throw e \<noteq> Some (Inr y)"
  by (simp add: throw_def)

text \<open>The branch of \<open>visitNode\<close> of \<open>assignReferences\<close> taken for each kind of node.\<close>

lemma ar_node_typeNode: "isTypeNode n \<Longrightarrow> ar_node m n c i st = ok st"
  by (subst ar_node.simps) simp

lemma ar_node_Identifier:
  assumes "kind n = Identifier"
  shows "ar_node m n c i st =
           (if c then
              andThen (getScope m n)
                (\<lambda>scope. if nodeText n = [] then ok st
                          else (case i of
                                  None \<Rightarrow> returns (addReference st scope n None False)
                                | Some i \<Rightarrow> returns (addReference st scope n (Some i) True)))
            else ar_forEach m (forEachChild n) c st)"
  by (subst ar_node.simps) (simp add: assms isTypeNode_def isFunctionLike_def)

lemma ar_node_BinaryExpression:
  assumes "kind n = BinaryExpression"
  shows "ar_node m n c i st =
           andThen
             (case getProp n ''operatorToken'' of
                None \<Rightarrow> throw TypeError
              | Some operatorToken \<Rightarrow> ok (kind operatorToken = EqualsToken))
             (\<lambda>isAssignment.
                if isAssignment then
                  andThen
                    (case getProp n ''left'' of
                       None \<Rightarrow> throw TypeError
                     | Some left \<Rightarrow>
                         if isIdentifier left then
                           andThen (getScope m n)
                             (\<lambda>scope. returns (addReference st scope left (getProp n ''right'') False))
                         else ar_visitNode m (getChild n ''left'') True None st)
                    (\<lambda>st. ar_visitNode m (getChild n ''right'') True None st)
                else ar_forEach m (forEachChild n) c st)"
  by (subst ar_node.simps) (simp add: assms isTypeNode_def isFunctionLike_def)

lemma ar_node_VariableDeclaration:
  assumes "kind n = VariableDeclaration"
  shows "ar_node m n c i st =
           andThen (ar_visitNode m (getChild n ''initializer'') True None st)
             (\<lambda>st. ar_visitNode m (getChild n ''name'') True (getProp n ''initializer'') st)"
  by (subst ar_node.simps) (simp add: assms isTypeNode_def isFunctionLike_def split: option.splits)

lemma ar_node_ExpressionStatement:
  assumes "kind n = ExpressionStatement"
  shows "ar_node m n c i st =
           ar_visitNode m (getChild n ''expression'') True None st"
  by (subst ar_node.simps) (simp add: assms isTypeNode_def isFunctionLike_def split: option.splits)

lemma ar_node_ReturnStatement:
  assumes "kind n = ReturnStatement"
  shows "ar_node m n c i st =
           ar_visitNode m (getChild n ''expression'') True None st"
  by (subst ar_node.simps) (simp add: assms isTypeNode_def isFunctionLike_def split: option.splits)

lemma ar_node_ThrowStatement:
  assumes "kind n = ThrowStatement"
  shows "ar_node m n c i st =
           ar_visitNode m (getChild n ''expression'') True None st"
  by (subst ar_node.simps) (simp add: assms isTypeNode_def isFunctionLike_def split: option.splits)

lemma ar_node_PropertyAccessExpression:
  assumes "kind n = PropertyAccessExpression"
  shows "ar_node m n c i st =
           andThen (ar_visitNode m (getChild n ''expression'') c None st)
             (\<lambda>st. ar_visitNode m (getChild n ''name'') False None st)"
  by (subst ar_node.simps) (simp add: assms isTypeNode_def isFunctionLike_def split: option.splits)

lemma ar_node_ElementAccessExpression:
  assumes "kind n = ElementAccessExpression"
  shows "ar_node m n c i st =
           andThen (ar_visitNode m (getChild n ''expression'') c None st)
             (\<lambda>st. ar_visitNode m (getChild n ''argumentExpression'') True None st)"
  by (subst ar_node.simps) (simp add: assms isTypeNode_def isFunctionLike_def split: option.splits)

lemma ar_node_CallExpression:
  assumes "kind n = CallExpression"
  shows "ar_node m n c i st =
           andThen (ar_visitNode m (getChild n ''expression'') True None st)
             (\<lambda>st. ar_visitNode m (getChild n ''arguments'') True None st)"
  by (subst ar_node.simps) (simp add: assms isTypeNode_def isFunctionLike_def split: option.splits)

lemma ar_node_ArrowFunction:
  assumes "kind n = ArrowFunction"
  shows "ar_node m n c i st =
           andThen (ar_visitNode m (getChild n ''parameters'') False None st)
             (\<lambda>st. case getProp n ''body'' of None \<Rightarrow> throw TypeError | Some body \<Rightarrow> ar_visitNode m (getChild n ''body'') (\<not> isBlock body) None st)"
  by (subst ar_node.simps) (simp add: assms isTypeNode_def isFunctionLike_def split: option.splits)

lemma ar_node_Parameter:
  assumes "kind n = Parameter"
  shows "ar_node m n c i st =
           andThen (ar_visitNode m (getChild n ''name'') False None st)
             (\<lambda>st. ar_visitNode m (getChild n ''initializer'') True None st)"
  by (subst ar_node.simps) (simp add: assms isTypeNode_def isFunctionLike_def split: option.splits)

lemma ar_node_IfStatement:
  assumes "kind n = IfStatement"
  shows "ar_node m n c i st =
           andThen (ar_visitNode m (getChild n ''expression'') True None st)
             (\<lambda>st. andThen (ar_visitNode m (getChild n ''thenStatement'') False None st)
             (\<lambda>st. ar_visitNode m (getChild n ''elseStatement'') False None st))"
  by (subst ar_node.simps) (simp add: assms isTypeNode_def isFunctionLike_def split: option.splits)

lemma ar_node_ForInStatement:
  assumes "kind n = ForInStatement"
  shows "ar_node m n c i st =
           andThen (ar_visitNode m (getChild n ''expression'') True None st)
             (\<lambda>st. andThen (ar_visitNode m (getChild n ''initializer'') True (getProp n ''expression'') st)
             (\<lambda>st. ar_visitNode m (getChild n ''statement'') False None st))"
  by (subst ar_node.simps) (simp add: assms isTypeNode_def isFunctionLike_def split: option.splits)

lemma ar_node_ForOfStatement:
  assumes "kind n = ForOfStatement"
  shows "ar_node m n c i st =
           andThen (ar_visitNode m (getChild n ''expression'') True None st)
             (\<lambda>st. andThen (ar_visitNode m (getChild n ''initializer'') True (getProp n ''expression'') st)
             (\<lambda>st. ar_visitNode m (getChild n ''statement'') False None st))"
  by (subst ar_node.simps) (simp add: assms isTypeNode_def isFunctionLike_def split: option.splits)

lemma ar_node_ForStatement:
  assumes "kind n = ForStatement"
  shows "ar_node m n c i st =
           andThen (ar_visitNode m (getChild n ''initializer'') True None st)
             (\<lambda>st. andThen (ar_visitNode m (getChild n ''condition'') True None st)
             (\<lambda>st. andThen (ar_visitNode m (getChild n ''incrementor'') True None st)
             (\<lambda>st. ar_visitNode m (getChild n ''statement'') False None st)))"
  by (subst ar_node.simps) (simp add: assms isTypeNode_def isFunctionLike_def split: option.splits)

lemma ar_node_WhileStatement:
  assumes "kind n = WhileStatement"
  shows "ar_node m n c i st =
           andThen (ar_visitNode m (getChild n ''expression'') True None st)
             (\<lambda>st. ar_visitNode m (getChild n ''statement'') False None st)"
  by (subst ar_node.simps) (simp add: assms isTypeNode_def isFunctionLike_def split: option.splits)

lemma ar_node_SwitchStatement:
  assumes "kind n = SwitchStatement"
  shows "ar_node m n c i st =
           andThen (ar_visitNode m (getChild n ''expression'') True None st)
             (\<lambda>st. ar_visitNode m (getChild n ''caseBlock'') False None st)"
  by (subst ar_node.simps) (simp add: assms isTypeNode_def isFunctionLike_def split: option.splits)

lemma ar_node_CaseClause:
  assumes "kind n = CaseClause"
  shows "ar_node m n c i st =
           andThen (ar_visitNode m (getChild n ''expression'') True None st)
             (\<lambda>st. ar_visitNode m (getChild n ''statements'') False None st)"
  by (subst ar_node.simps) (simp add: assms isTypeNode_def isFunctionLike_def split: option.splits)

lemma ar_node_JsxOpeningElement:
  assumes "kind n = JsxOpeningElement"
  shows "ar_node m n c i st =
           andThen (ar_visitNode m (getChild n ''tagName'') True None st)
             (\<lambda>st. ar_visitNode m (getChild n ''attributes'') False None st)"
  by (subst ar_node.simps) (simp add: assms isTypeNode_def isFunctionLike_def split: option.splits)

lemma ar_node_JsxClosingElement:
  assumes "kind n = JsxClosingElement"
  shows "ar_node m n c i st =
           ar_visitNode m (getChild n ''tagName'') True None st"
  by (subst ar_node.simps) (simp add: assms isTypeNode_def isFunctionLike_def split: option.splits)

lemma ar_node_JsxSelfClosingElement:
  assumes "kind n = JsxSelfClosingElement"
  shows "ar_node m n c i st =
           andThen (ar_visitNode m (getChild n ''tagName'') True None st)
             (\<lambda>st. ar_visitNode m (getChild n ''attributes'') False None st)"
  by (subst ar_node.simps) (simp add: assms isTypeNode_def isFunctionLike_def split: option.splits)

lemma ar_node_JsxExpression:
  assumes "kind n = JsxExpression"
  shows "ar_node m n c i st =
           ar_visitNode m (getChild n ''expression'') True None st"
  by (subst ar_node.simps) (simp add: assms isTypeNode_def isFunctionLike_def split: option.splits)

lemma ar_node_JsxAttribute:
  assumes "kind n = JsxAttribute"
  shows "ar_node m n c i st =
           andThen (ar_visitNode m (getChild n ''name'') False None st)
             (\<lambda>st. ar_visitNode m (getChild n ''initializer'') True None st)"
  by (subst ar_node.simps) (simp add: assms isTypeNode_def isFunctionLike_def split: option.splits)

lemma ar_node_JsxSpreadAttribute:
  assumes "kind n = JsxSpreadAttribute"
  shows "ar_node m n c i st =
           ar_visitNode m (getChild n ''expression'') True None st"
  by (subst ar_node.simps) (simp add: assms isTypeNode_def isFunctionLike_def split: option.splits)

lemma ar_node_PropertyAssignment:
  assumes "kind n = PropertyAssignment"
  shows "ar_node m n c i st =
           andThen (ar_visitNode m (getChild n ''name'') False None st)
             (\<lambda>st. ar_visitNode m (getChild n ''initializer'') True None st)"
  by (subst ar_node.simps) (simp add: assms isTypeNode_def isFunctionLike_def split: option.splits)

lemma ar_node_ComputedPropertyName:
  assumes "kind n = ComputedPropertyName"
  shows "ar_node m n c i st =
           ar_visitNode m (getChild n ''expression'') True None st"
  by (subst ar_node.simps) (simp add: assms isTypeNode_def isFunctionLike_def split: option.splits)

lemma ar_node_MethodSignature:
  assumes "kind n = MethodSignature"
  shows "ar_node m n c i st = (if c then ar_node m n False None st else ar_forEach m (forEachChild n) c st)"
  by (subst ar_node.simps) (simp add: assms isTypeNode_def isFunctionLike_def)

lemma ar_node_CallSignature:
  assumes "kind n = CallSignature"
  shows "ar_node m n c i st = (if c then ar_node m n False None st else ar_forEach m (forEachChild n) c st)"
  by (subst ar_node.simps) (simp add: assms isTypeNode_def isFunctionLike_def)

lemma ar_node_JSDocSignature:
  assumes "kind n = JSDocSignature"
  shows "ar_node m n c i st = (if c then ar_node m n False None st else ar_forEach m (forEachChild n) c st)"
  by (subst ar_node.simps) (simp add: assms isTypeNode_def isFunctionLike_def)

lemma ar_node_ConstructSignature:
  assumes "kind n = ConstructSignature"
  shows "ar_node m n c i st = (if c then ar_node m n False None st else ar_forEach m (forEachChild n) c st)"
  by (subst ar_node.simps) (simp add: assms isTypeNode_def isFunctionLike_def)

lemma ar_node_IndexSignature:
  assumes "kind n = IndexSignature"
  shows "ar_node m n c i st = (if c then ar_node m n False None st else ar_forEach m (forEachChild n) c st)"
  by (subst ar_node.simps) (simp add: assms isTypeNode_def isFunctionLike_def)

lemma ar_node_FunctionDeclaration:
  assumes "kind n = FunctionDeclaration"
  shows "ar_node m n c i st = (if c then ar_node m n False None st else ar_forEach m (forEachChild n) c st)"
  by (subst ar_node.simps) (simp add: assms isTypeNode_def isFunctionLike_def)

lemma ar_node_MethodDeclaration:
  assumes "kind n = MethodDeclaration"
  shows "ar_node m n c i st = (if c then ar_node m n False None st else ar_forEach m (forEachChild n) c st)"
  by (subst ar_node.simps) (simp add: assms isTypeNode_def isFunctionLike_def)

lemma ar_node_Constructor:
  assumes "kind n = Constructor"
  shows "ar_node m n c i st = (if c then ar_node m n False None st else ar_forEach m (forEachChild n) c st)"
  by (subst ar_node.simps) (simp add: assms isTypeNode_def isFunctionLike_def)

lemma ar_node_GetAccessor:
  assumes "kind n = GetAccessor"
  shows "ar_node m n c i st = (if c then ar_node m n False None st else ar_forEach m (forEachChild n) c st)"
  by (subst ar_node.simps) (simp add: assms isTypeNode_def isFunctionLike_def)

lemma ar_node_SetAccessor:
  assumes "kind n = SetAccessor"
  shows "ar_node m n c i st = (if c then ar_node m n False None st else ar_forEach m (forEachChild n) c st)"
  by (subst ar_node.simps) (simp add: assms isTypeNode_def isFunctionLike_def)

lemma ar_node_FunctionExpression:
  assumes "kind n = FunctionExpression"
  shows "ar_node m n c i st = (if c then ar_node m n False None st else ar_forEach m (forEachChild n) c st)"
  by (subst ar_node.simps) (simp add: assms isTypeNode_def isFunctionLike_def)

lemma ar_node_SourceFile:
  assumes "kind n = SourceFile"
  shows "ar_node m n c i st = ar_forEach m (forEachChild n) c st"
  by (subst ar_node.simps) (simp add: assms isTypeNode_def isFunctionLike_def)

lemma ar_node_Block:
  assumes "kind n = Block"
  shows "ar_node m n c i st = ar_forEach m (forEachChild n) c st"
  by (subst ar_node.simps) (simp add: assms isTypeNode_def isFunctionLike_def)

lemma ar_node_CatchClause:
  assumes "kind n = CatchClause"
  shows "ar_node m n c i st = ar_forEach m (forEachChild n) c st"
  by (subst ar_node.simps) (simp add: assms isTypeNode_def isFunctionLike_def)

lemma ar_node_ImportClause:
  assumes "kind n = ImportClause"
  shows "ar_node m n c i st = ar_forEach m (forEachChild n) c st"
  by (subst ar_node.simps) (simp add: assms isTypeNode_def isFunctionLike_def)

lemma ar_node_NamespaceImport:
  assumes "kind n = NamespaceImport"
  shows "ar_node m n c i st = ar_forEach m (forEachChild n) c st"
  by (subst ar_node.simps) (simp add: assms isTypeNode_def isFunctionLike_def)

lemma ar_node_ClassDeclaration:
  assumes "kind n = ClassDeclaration"
  shows "ar_node m n c i st = ar_forEach m (forEachChild n) c st"
  by (subst ar_node.simps) (simp add: assms isTypeNode_def isFunctionLike_def)

lemma ar_node_ClassExpression:
  assumes "kind n = ClassExpression"
  shows "ar_node m n c i st = ar_forEach m (forEachChild n) c st"
  by (subst ar_node.simps) (simp add: assms isTypeNode_def isFunctionLike_def)

lemma ar_node_VariableDeclarationList:
  assumes "kind n = VariableDeclarationList"
  shows "ar_node m n c i st = ar_forEach m (forEachChild n) c st"
  by (subst ar_node.simps) (simp add: assms isTypeNode_def isFunctionLike_def)

lemma ar_node_ObjectBindingPattern:
  assumes "kind n = ObjectBindingPattern"
  shows "ar_node m n c i st = ar_forEach m (forEachChild n) c st"
  by (subst ar_node.simps) (simp add: assms isTypeNode_def isFunctionLike_def)

lemma ar_node_ArrayBindingPattern:
  assumes "kind n = ArrayBindingPattern"
  shows "ar_node m n c i st = ar_forEach m (forEachChild n) c st"
  by (subst ar_node.simps) (simp add: assms isTypeNode_def isFunctionLike_def)

lemma ar_node_BindingElement:
  assumes "kind n = BindingElement"
  shows "ar_node m n c i st = ar_forEach m (forEachChild n) c st"
  by (subst ar_node.simps) (simp add: assms isTypeNode_def isFunctionLike_def)

lemma ar_node_EqualsToken:
  assumes "kind n = EqualsToken"
  shows "ar_node m n c i st = ar_forEach m (forEachChild n) c st"
  by (subst ar_node.simps) (simp add: assms isTypeNode_def isFunctionLike_def)

lemma ar_node_OtherKind:
  assumes "kind n = OtherKind k"
  shows "ar_node m n c i st = ar_forEach m (forEachChild n) c st"
  by (subst ar_node.simps) (simp add: assms isTypeNode_def isFunctionLike_def)

lemma ar_node_cases:
  assumes arg: "\<And>p c' i' st st'. ar_visitNode m (getChild n p) c' i' st = Some (Inr st') \<Longrightarrow>
                  (isParameter n \<Longrightarrow> p = ''name'' \<Longrightarrow> \<not> c') \<Longrightarrow>
                  (\<not> c \<Longrightarrow> patternish n \<Longrightarrow> \<not> c') \<Longrightarrow> R st st'"
    and each: "\<And>st st'. ar_forEach m (forEachChild n) c st = Some (Inr st') \<Longrightarrow>
                  \<not> isParameter n \<Longrightarrow> R st st'"
    and self: "\<And>st st'. isFunctionLike n \<Longrightarrow> c \<Longrightarrow>
                  ar_node m n False None st = Some (Inr st') \<Longrightarrow> R st st'"
    and ident: "\<And>st s st' w i. isIdentifier n \<Longrightarrow> c \<Longrightarrow>
                  addReference st s n w i = Some st' \<Longrightarrow> R st st'"
    and left: "\<And>st s x st' w. isBinaryExpression n \<Longrightarrow> getProp n ''left'' = Some x \<Longrightarrow>
                  isIdentifier x \<Longrightarrow> addReference st s x w False = Some st' \<Longrightarrow> R st st'"
    and refl: "\<And>st. R st st"
    and trans: "\<And>a b c. R a b \<Longrightarrow> R b c \<Longrightarrow> R a c"
    and run: "ar_node m n c i st = Some (Inr st')"
  shows "R st st'"
proof -
  have arg2: "R st st'"
    if "ar_visitNode m (getChild n p1) c1 i1 st = Some (Inr x)"
       "ar_visitNode m (getChild n p2) c2 i2 x = Some (Inr st')"
       "isParameter n \<Longrightarrow> p1 = ''name'' \<Longrightarrow> \<not> c1" "\<not> c \<Longrightarrow> patternish n \<Longrightarrow> \<not> c1"
       "isParameter n \<Longrightarrow> p2 = ''name'' \<Longrightarrow> \<not> c2" "\<not> c \<Longrightarrow> patternish n \<Longrightarrow> \<not> c2"
    for p1 c1 i1 p2 c2 i2 st x st'
    by (rule trans[OF arg[OF that(1) that(3) that(4)] arg[OF that(2) that(5) that(6)]])
  have arg3: "R st st'"
    if "ar_visitNode m (getChild n p1) c1 i1 st = Some (Inr x)"
       "ar_visitNode m (getChild n p2) c2 i2 x = Some (Inr y)"
       "ar_visitNode m (getChild n p3) c3 i3 y = Some (Inr st')"
       "\<not> isParameter n" "\<not> patternish n"
    for p1 c1 i1 p2 c2 i2 p3 c3 i3 st x y st'
  proof -
    have 1: "R st x" using that by (intro arg[OF that(1)]) simp_all
    have 2: "R x y" using that by (intro arg[OF that(2)]) simp_all
    have 3: "R y st'" using that by (intro arg[OF that(3)]) simp_all
    from 1 2 3 show ?thesis by (blast intro: trans)
  qed
  have arg4: "R st st'"
    if "ar_visitNode m (getChild n p1) c1 i1 st = Some (Inr x)"
       "ar_visitNode m (getChild n p2) c2 i2 x = Some (Inr y)"
       "ar_visitNode m (getChild n p3) c3 i3 y = Some (Inr z)"
       "ar_visitNode m (getChild n p4) c4 i4 z = Some (Inr st')"
       "\<not> isParameter n" "\<not> patternish n"
    for p1 c1 i1 p2 c2 i2 p3 c3 i3 p4 c4 i4 st x y z st'
  proof -
    have 1: "R st x" using that by (intro arg[OF that(1)]) simp_all
    have 2: "R x y" using that by (intro arg[OF that(2)]) simp_all
    have 3: "R y z" using that by (intro arg[OF that(3)]) simp_all
    have 4: "R z st'" using that by (intro arg[OF that(4)]) simp_all
    from 1 2 3 4 show ?thesis by (blast intro: trans)
  qed
  have leftarg: "R st st'"
    if "isBinaryExpression n" "getProp n ''left'' = Some x" "isIdentifier x"
       "addReference st s x w False = Some y"
       "ar_visitNode m (getChild n p2) c2 i2 y = Some (Inr st')"
    for st s x w y p2 c2 i2 st'
  proof -
    have 1: "R st y" by (rule left[OF that(1-4)])
    have 2: "R y st'" using that(1) by (intro arg[OF that(5)]) (simp_all add: patternish_def)
    from 1 2 show ?thesis by (rule trans)
  qed
  note rules = arg arg2 arg3 arg4 leftarg each self ident refl
  show ?thesis
  proof (cases "kind n")
    case Identifier
    from run show ?thesis
      apply (simp only: ar_node_Identifier[OF Identifier])
      apply (auto elim!: andThenE split: option.splits if_splits
                  simp: returns_Some Identifier intro: refl ident[OF Identifier] each)
      done
  next
    case ArrowFunction
    from run obtain x where
      1: "ar_visitNode m (getChild n ''parameters'') False None st = Some (Inr x)"
      and 2: "(case getProp n ''body'' of None \<Rightarrow> throw TypeError
               | Some body \<Rightarrow> ar_visitNode m (getChild n ''body'') (\<not> isBlock body) None x)
              = Some (Inr st')"
      by (simp only: ar_node_ArrowFunction[OF ArrowFunction]) (erule andThenE)
    from 2 obtain b where
      3: "ar_visitNode m (getChild n ''body'') (\<not> isBlock b) None x = Some (Inr st')"
      by (cases "getProp n ''body''") auto
    show ?thesis
      by (rule arg2[OF 1 3]) (simp_all add: ArrowFunction patternish_def)
  next
    case VariableDeclaration
    from run obtain x1 where
      v: "ar_visitNode m (getChild n ''initializer'') True None st = Some (Inr x1)"
         "ar_visitNode m (getChild n ''name'') True (getProp n ''initializer'') x1 = Some (Inr st')"
      by (simp only: ar_node_VariableDeclaration[OF VariableDeclaration]) (elim andThenE)
    show ?thesis
      by (rule arg2[OF v]) (simp_all add: VariableDeclaration patternish_def)
  next
    case ExpressionStatement
    from run have
      v: "ar_visitNode m (getChild n ''expression'') True None st = Some (Inr st')"
      by (simp only: ar_node_ExpressionStatement[OF ExpressionStatement])
    show ?thesis
      by (rule arg[OF v]) (simp_all add: ExpressionStatement patternish_def)
  next
    case ReturnStatement
    from run have
      v: "ar_visitNode m (getChild n ''expression'') True None st = Some (Inr st')"
      by (simp only: ar_node_ReturnStatement[OF ReturnStatement])
    show ?thesis
      by (rule arg[OF v]) (simp_all add: ReturnStatement patternish_def)
  next
    case ThrowStatement
    from run have
      v: "ar_visitNode m (getChild n ''expression'') True None st = Some (Inr st')"
      by (simp only: ar_node_ThrowStatement[OF ThrowStatement])
    show ?thesis
      by (rule arg[OF v]) (simp_all add: ThrowStatement patternish_def)
  next
    case PropertyAccessExpression
    from run obtain x1 where
      v: "ar_visitNode m (getChild n ''expression'') c None st = Some (Inr x1)"
         "ar_visitNode m (getChild n ''name'') False None x1 = Some (Inr st')"
      by (simp only: ar_node_PropertyAccessExpression[OF PropertyAccessExpression]) (elim andThenE)
    show ?thesis
      by (rule arg2[OF v]) (simp_all add: PropertyAccessExpression patternish_def)
  next
    case ElementAccessExpression
    from run obtain x1 where
      v: "ar_visitNode m (getChild n ''expression'') c None st = Some (Inr x1)"
         "ar_visitNode m (getChild n ''argumentExpression'') True None x1 = Some (Inr st')"
      by (simp only: ar_node_ElementAccessExpression[OF ElementAccessExpression]) (elim andThenE)
    show ?thesis
      by (rule arg2[OF v]) (simp_all add: ElementAccessExpression patternish_def)
  next
    case CallExpression
    from run obtain x1 where
      v: "ar_visitNode m (getChild n ''expression'') True None st = Some (Inr x1)"
         "ar_visitNode m (getChild n ''arguments'') True None x1 = Some (Inr st')"
      by (simp only: ar_node_CallExpression[OF CallExpression]) (elim andThenE)
    show ?thesis
      by (rule arg2[OF v]) (simp_all add: CallExpression patternish_def)
  next
    case Parameter
    from run obtain x1 where
      v: "ar_visitNode m (getChild n ''name'') False None st = Some (Inr x1)"
         "ar_visitNode m (getChild n ''initializer'') True None x1 = Some (Inr st')"
      by (simp only: ar_node_Parameter[OF Parameter]) (elim andThenE)
    show ?thesis
      by (rule arg2[OF v]) (simp_all add: Parameter patternish_def)
  next
    case IfStatement
    from run obtain x1 x2 where
      v: "ar_visitNode m (getChild n ''expression'') True None st = Some (Inr x1)"
         "ar_visitNode m (getChild n ''thenStatement'') False None x1 = Some (Inr x2)"
         "ar_visitNode m (getChild n ''elseStatement'') False None x2 = Some (Inr st')"
      by (simp only: ar_node_IfStatement[OF IfStatement]) (elim andThenE)
    show ?thesis
      by (rule arg3[OF v]) (simp_all add: IfStatement patternish_def)
  next
    case ForInStatement
    from run obtain x1 x2 where
      v: "ar_visitNode m (getChild n ''expression'') True None st = Some (Inr x1)"
         "ar_visitNode m (getChild n ''initializer'') True (getProp n ''expression'') x1 = Some (Inr x2)"
         "ar_visitNode m (getChild n ''statement'') False None x2 = Some (Inr st')"
      by (simp only: ar_node_ForInStatement[OF ForInStatement]) (elim andThenE)
    show ?thesis
      by (rule arg3[OF v]) (simp_all add: ForInStatement patternish_def)
  next
    case ForOfStatement
    from run obtain x1 x2 where
      v: "ar_visitNode m (getChild n ''expression'') True None st = Some (Inr x1)"
         "ar_visitNode m (getChild n ''initializer'') True (getProp n ''expression'') x1 = Some (Inr x2)"
         "ar_visitNode m (getChild n ''statement'') False None x2 = Some (Inr st')"
      by (simp only: ar_node_ForOfStatement[OF ForOfStatement]) (elim andThenE)
    show ?thesis
      by (rule arg3[OF v]) (simp_all add: ForOfStatement patternish_def)
  next
    case ForStatement
    from run obtain x1 x2 x3 where
      v: "ar_visitNode m (getChild n ''initializer'') True None st = Some (Inr x1)"
         "ar_visitNode m (getChild n ''condition'') True None x1 = Some (Inr x2)"
         "ar_visitNode m (getChild n ''incrementor'') True None x2 = Some (Inr x3)"
         "ar_visitNode m (getChild n ''statement'') False None x3 = Some (Inr st')"
      by (simp only: ar_node_ForStatement[OF ForStatement]) (elim andThenE)
    show ?thesis
      by (rule arg4[OF v]) (simp_all add: ForStatement patternish_def)
  next
    case WhileStatement
    from run obtain x1 where
      v: "ar_visitNode m (getChild n ''expression'') True None st = Some (Inr x1)"
         "ar_visitNode m (getChild n ''statement'') False None x1 = Some (Inr st')"
      by (simp only: ar_node_WhileStatement[OF WhileStatement]) (elim andThenE)
    show ?thesis
      by (rule arg2[OF v]) (simp_all add: WhileStatement patternish_def)
  next
    case SwitchStatement
    from run obtain x1 where
      v: "ar_visitNode m (getChild n ''expression'') True None st = Some (Inr x1)"
         "ar_visitNode m (getChild n ''caseBlock'') False None x1 = Some (Inr st')"
      by (simp only: ar_node_SwitchStatement[OF SwitchStatement]) (elim andThenE)
    show ?thesis
      by (rule arg2[OF v]) (simp_all add: SwitchStatement patternish_def)
  next
    case CaseClause
    from run obtain x1 where
      v: "ar_visitNode m (getChild n ''expression'') True None st = Some (Inr x1)"
         "ar_visitNode m (getChild n ''statements'') False None x1 = Some (Inr st')"
      by (simp only: ar_node_CaseClause[OF CaseClause]) (elim andThenE)
    show ?thesis
      by (rule arg2[OF v]) (simp_all add: CaseClause patternish_def)
  next
    case JsxOpeningElement
    from run obtain x1 where
      v: "ar_visitNode m (getChild n ''tagName'') True None st = Some (Inr x1)"
         "ar_visitNode m (getChild n ''attributes'') False None x1 = Some (Inr st')"
      by (simp only: ar_node_JsxOpeningElement[OF JsxOpeningElement]) (elim andThenE)
    show ?thesis
      by (rule arg2[OF v]) (simp_all add: JsxOpeningElement patternish_def)
  next
    case JsxClosingElement
    from run have
      v: "ar_visitNode m (getChild n ''tagName'') True None st = Some (Inr st')"
      by (simp only: ar_node_JsxClosingElement[OF JsxClosingElement])
    show ?thesis
      by (rule arg[OF v]) (simp_all add: JsxClosingElement patternish_def)
  next
    case JsxSelfClosingElement
    from run obtain x1 where
      v: "ar_visitNode m (getChild n ''tagName'') True None st = Some (Inr x1)"
         "ar_visitNode m (getChild n ''attributes'') False None x1 = Some (Inr st')"
      by (simp only: ar_node_JsxSelfClosingElement[OF JsxSelfClosingElement]) (elim andThenE)
    show ?thesis
      by (rule arg2[OF v]) (simp_all add: JsxSelfClosingElement patternish_def)
  next
    case JsxExpression
    from run have
      v: "ar_visitNode m (getChild n ''expression'') True None st = Some (Inr st')"
      by (simp only: ar_node_JsxExpression[OF JsxExpression])
    show ?thesis
      by (rule arg[OF v]) (simp_all add: JsxExpression patternish_def)
  next
    case JsxAttribute
    from run obtain x1 where
      v: "ar_visitNode m (getChild n ''name'') False None st = Some (Inr x1)"
         "ar_visitNode m (getChild n ''initializer'') True None x1 = Some (Inr st')"
      by (simp only: ar_node_JsxAttribute[OF JsxAttribute]) (elim andThenE)
    show ?thesis
      by (rule arg2[OF v]) (simp_all add: JsxAttribute patternish_def)
  next
    case JsxSpreadAttribute
    from run have
      v: "ar_visitNode m (getChild n ''expression'') True None st = Some (Inr st')"
      by (simp only: ar_node_JsxSpreadAttribute[OF JsxSpreadAttribute])
    show ?thesis
      by (rule arg[OF v]) (simp_all add: JsxSpreadAttribute patternish_def)
  next
    case PropertyAssignment
    from run obtain x1 where
      v: "ar_visitNode m (getChild n ''name'') False None st = Some (Inr x1)"
         "ar_visitNode m (getChild n ''initializer'') True None x1 = Some (Inr st')"
      by (simp only: ar_node_PropertyAssignment[OF PropertyAssignment]) (elim andThenE)
    show ?thesis
      by (rule arg2[OF v]) (simp_all add: PropertyAssignment patternish_def)
  next
    case ComputedPropertyName
    from run have
      v: "ar_visitNode m (getChild n ''expression'') True None st = Some (Inr st')"
      by (simp only: ar_node_ComputedPropertyName[OF ComputedPropertyName])
    show ?thesis
      by (rule arg[OF v]) (simp_all add: ComputedPropertyName patternish_def)
  next
    case BinaryExpression
    from run show ?thesis
      apply (simp only: ar_node_BinaryExpression[OF BinaryExpression])
      apply (auto elim!: andThenE split: option.splits if_splits
                  simp: returns_Some patternish_def BinaryExpression isFunctionLike_def intro: rules)
      done
  next
    case SourceFile
    from run have "ar_forEach m (forEachChild n) c st = Some (Inr st')"
      by (simp only: ar_node_SourceFile[OF SourceFile])
    then show ?thesis by (rule each) (simp add: SourceFile)
  next
    case Block
    from run have "ar_forEach m (forEachChild n) c st = Some (Inr st')"
      by (simp only: ar_node_Block[OF Block])
    then show ?thesis by (rule each) (simp add: Block)
  next
    case CatchClause
    from run have "ar_forEach m (forEachChild n) c st = Some (Inr st')"
      by (simp only: ar_node_CatchClause[OF CatchClause])
    then show ?thesis by (rule each) (simp add: CatchClause)
  next
    case ImportClause
    from run have "ar_forEach m (forEachChild n) c st = Some (Inr st')"
      by (simp only: ar_node_ImportClause[OF ImportClause])
    then show ?thesis by (rule each) (simp add: ImportClause)
  next
    case NamespaceImport
    from run have "ar_forEach m (forEachChild n) c st = Some (Inr st')"
      by (simp only: ar_node_NamespaceImport[OF NamespaceImport])
    then show ?thesis by (rule each) (simp add: NamespaceImport)
  next
    case ClassDeclaration
    from run have "ar_forEach m (forEachChild n) c st = Some (Inr st')"
      by (simp only: ar_node_ClassDeclaration[OF ClassDeclaration])
    then show ?thesis by (rule each) (simp add: ClassDeclaration)
  next
    case ClassExpression
    from run have "ar_forEach m (forEachChild n) c st = Some (Inr st')"
      by (simp only: ar_node_ClassExpression[OF ClassExpression])
    then show ?thesis by (rule each) (simp add: ClassExpression)
  next
    case VariableDeclarationList
    from run have "ar_forEach m (forEachChild n) c st = Some (Inr st')"
      by (simp only: ar_node_VariableDeclarationList[OF VariableDeclarationList])
    then show ?thesis by (rule each) (simp add: VariableDeclarationList)
  next
    case ObjectBindingPattern
    from run have "ar_forEach m (forEachChild n) c st = Some (Inr st')"
      by (simp only: ar_node_ObjectBindingPattern[OF ObjectBindingPattern])
    then show ?thesis by (rule each) (simp add: ObjectBindingPattern)
  next
    case ArrayBindingPattern
    from run have "ar_forEach m (forEachChild n) c st = Some (Inr st')"
      by (simp only: ar_node_ArrayBindingPattern[OF ArrayBindingPattern])
    then show ?thesis by (rule each) (simp add: ArrayBindingPattern)
  next
    case BindingElement
    from run have "ar_forEach m (forEachChild n) c st = Some (Inr st')"
      by (simp only: ar_node_BindingElement[OF BindingElement])
    then show ?thesis by (rule each) (simp add: BindingElement)
  next
    case EqualsToken
    from run have "ar_forEach m (forEachChild n) c st = Some (Inr st')"
      by (simp only: ar_node_EqualsToken[OF EqualsToken])
    then show ?thesis by (rule each) (simp add: EqualsToken)
  next
    case MethodSignature
    show ?thesis
    proof (cases c)
      case True
      with run have h: "ar_node m n False None st = Some (Inr st')"
        by (subst (asm) ar_node_MethodSignature[OF MethodSignature]) simp
      show ?thesis by (rule self[OF _ True h]) (simp add: isFunctionLike_def MethodSignature)
    next
      case False
      with run have "ar_forEach m (forEachChild n) c st = Some (Inr st')"
        by (subst (asm) ar_node_MethodSignature[OF MethodSignature]) simp
      then show ?thesis by (rule each) (simp add: MethodSignature)
    qed
  next
    case CallSignature
    show ?thesis
    proof (cases c)
      case True
      with run have h: "ar_node m n False None st = Some (Inr st')"
        by (subst (asm) ar_node_CallSignature[OF CallSignature]) simp
      show ?thesis by (rule self[OF _ True h]) (simp add: isFunctionLike_def CallSignature)
    next
      case False
      with run have "ar_forEach m (forEachChild n) c st = Some (Inr st')"
        by (subst (asm) ar_node_CallSignature[OF CallSignature]) simp
      then show ?thesis by (rule each) (simp add: CallSignature)
    qed
  next
    case JSDocSignature
    show ?thesis
    proof (cases c)
      case True
      with run have h: "ar_node m n False None st = Some (Inr st')"
        by (subst (asm) ar_node_JSDocSignature[OF JSDocSignature]) simp
      show ?thesis by (rule self[OF _ True h]) (simp add: isFunctionLike_def JSDocSignature)
    next
      case False
      with run have "ar_forEach m (forEachChild n) c st = Some (Inr st')"
        by (subst (asm) ar_node_JSDocSignature[OF JSDocSignature]) simp
      then show ?thesis by (rule each) (simp add: JSDocSignature)
    qed
  next
    case ConstructSignature
    show ?thesis
    proof (cases c)
      case True
      with run have h: "ar_node m n False None st = Some (Inr st')"
        by (subst (asm) ar_node_ConstructSignature[OF ConstructSignature]) simp
      show ?thesis by (rule self[OF _ True h]) (simp add: isFunctionLike_def ConstructSignature)
    next
      case False
      with run have "ar_forEach m (forEachChild n) c st = Some (Inr st')"
        by (subst (asm) ar_node_ConstructSignature[OF ConstructSignature]) simp
      then show ?thesis by (rule each) (simp add: ConstructSignature)
    qed
  next
    case IndexSignature
    show ?thesis
    proof (cases c)
      case True
      with run have h: "ar_node m n False None st = Some (Inr st')"
        by (subst (asm) ar_node_IndexSignature[OF IndexSignature]) simp
      show ?thesis by (rule self[OF _ True h]) (simp add: isFunctionLike_def IndexSignature)
    next
      case False
      with run have "ar_forEach m (forEachChild n) c st = Some (Inr st')"
        by (subst (asm) ar_node_IndexSignature[OF IndexSignature]) simp
      then show ?thesis by (rule each) (simp add: IndexSignature)
    qed
  next
    case FunctionDeclaration
    show ?thesis
    proof (cases c)
      case True
      with run have h: "ar_node m n False None st = Some (Inr st')"
        by (subst (asm) ar_node_FunctionDeclaration[OF FunctionDeclaration]) simp
      show ?thesis by (rule self[OF _ True h]) (simp add: isFunctionLike_def FunctionDeclaration)
    next
      case False
      with run have "ar_forEach m (forEachChild n) c st = Some (Inr st')"
        by (subst (asm) ar_node_FunctionDeclaration[OF FunctionDeclaration]) simp
      then show ?thesis by (rule each) (simp add: FunctionDeclaration)
    qed
  next
    case MethodDeclaration
    show ?thesis
    proof (cases c)
      case True
      with run have h: "ar_node m n False None st = Some (Inr st')"
        by (subst (asm) ar_node_MethodDeclaration[OF MethodDeclaration]) simp
      show ?thesis by (rule self[OF _ True h]) (simp add: isFunctionLike_def MethodDeclaration)
    next
      case False
      with run have "ar_forEach m (forEachChild n) c st = Some (Inr st')"
        by (subst (asm) ar_node_MethodDeclaration[OF MethodDeclaration]) simp
      then show ?thesis by (rule each) (simp add: MethodDeclaration)
    qed
  next
    case Constructor
    show ?thesis
    proof (cases c)
      case True
      with run have h: "ar_node m n False None st = Some (Inr st')"
        by (subst (asm) ar_node_Constructor[OF Constructor]) simp
      show ?thesis by (rule self[OF _ True h]) (simp add: isFunctionLike_def Constructor)
    next
      case False
      with run have "ar_forEach m (forEachChild n) c st = Some (Inr st')"
        by (subst (asm) ar_node_Constructor[OF Constructor]) simp
      then show ?thesis by (rule each) (simp add: Constructor)
    qed
  next
    case GetAccessor
    show ?thesis
    proof (cases c)
      case True
      with run have h: "ar_node m n False None st = Some (Inr st')"
        by (subst (asm) ar_node_GetAccessor[OF GetAccessor]) simp
      show ?thesis by (rule self[OF _ True h]) (simp add: isFunctionLike_def GetAccessor)
    next
      case False
      with run have "ar_forEach m (forEachChild n) c st = Some (Inr st')"
        by (subst (asm) ar_node_GetAccessor[OF GetAccessor]) simp
      then show ?thesis by (rule each) (simp add: GetAccessor)
    qed
  next
    case SetAccessor
    show ?thesis
    proof (cases c)
      case True
      with run have h: "ar_node m n False None st = Some (Inr st')"
        by (subst (asm) ar_node_SetAccessor[OF SetAccessor]) simp
      show ?thesis by (rule self[OF _ True h]) (simp add: isFunctionLike_def SetAccessor)
    next
      case False
      with run have "ar_forEach m (forEachChild n) c st = Some (Inr st')"
        by (subst (asm) ar_node_SetAccessor[OF SetAccessor]) simp
      then show ?thesis by (rule each) (simp add: SetAccessor)
    qed
  next
    case FunctionExpression
    show ?thesis
    proof (cases c)
      case True
      with run have h: "ar_node m n False None st = Some (Inr st')"
        by (subst (asm) ar_node_FunctionExpression[OF FunctionExpression]) simp
      show ?thesis by (rule self[OF _ True h]) (simp add: isFunctionLike_def FunctionExpression)
    next
      case False
      with run have "ar_forEach m (forEachChild n) c st = Some (Inr st')"
        by (subst (asm) ar_node_FunctionExpression[OF FunctionExpression]) simp
      then show ?thesis by (rule each) (simp add: FunctionExpression)
    qed
  next
    case FunctionType
    then have "isTypeNode n" by (simp add: isTypeNode_def)
    with run show ?thesis by (simp add: ar_node_typeNode refl)
  next
    case JSDocFunctionType
    then have "isTypeNode n" by (simp add: isTypeNode_def)
    with run show ?thesis by (simp add: ar_node_typeNode refl)
  next
    case ConstructorType
    then have "isTypeNode n" by (simp add: isTypeNode_def)
    with run show ?thesis by (simp add: ar_node_typeNode refl)
  next
    case (TypeNodeKind k)
    then have "isTypeNode n" by (simp add: isTypeNode_def)
    with run show ?thesis by (simp add: ar_node_typeNode refl)
  next
    case (OtherKind k)
    from run have "ar_forEach m (forEachChild n) c st = Some (Inr st')"
      by (simp only: ar_node_OtherKind[OF OtherKind])
    then show ?thesis by (rule each) (simp add: OtherKind)
  qed
qed

lemma mayRecord_mono: "mayRecord n False \<subseteq> mayRecord n c"
  by (auto simp: mayRecord_def)

lemma parameterTargets_cases:
  assumes "x \<in> set (parameterTargets n)"
  obtains (own) name where "isParameter n" "getProp n ''name'' = Some name" "x \<in> set (bindingTargets name)"
    | (child) ch where "ch \<in> set (forEachChild n)" "x \<in> set (parameterTargets ch)"
proof -
  have eq: "parameterTargets n =
          (if isParameter n
           then (case getProp n ''name'' of None \<Rightarrow> [] | Some name \<Rightarrow> bindingTargets name)
           else [])
          @ concat (map parameterTargets (forEachChild n))"
    by (rule parameterTargets.simps)
  from assms have "x \<in> set (if isParameter n
           then (case getProp n ''name'' of None \<Rightarrow> [] | Some name \<Rightarrow> bindingTargets name)
           else []) \<or> x \<in> set (concat (map parameterTargets (forEachChild n)))"
    by (subst (asm) eq) (simp only: set_append Un_iff)
  then show thesis
  proof
    assume a: "x \<in> set (if isParameter n
           then (case getProp n ''name'' of None \<Rightarrow> [] | Some name \<Rightarrow> bindingTargets name)
           else [])"
    then have p: "isParameter n" by (cases "isParameter n") simp_all
    with a obtain name where "getProp n ''name'' = Some name" "x \<in> set (bindingTargets name)"
      by (cases "getProp n ''name''") simp_all
    with p show thesis by (rule own)
  next
    assume "x \<in> set (concat (map parameterTargets (forEachChild n)))"
    then obtain c where "c \<in> set (forEachChild n)" "x \<in> set (parameterTargets c)" by auto
    then show thesis by (rule child)
  qed
qed

lemma bindingTargets_cases:
  assumes "x \<in> set (bindingTargets n)"
  obtains (ident) "isIdentifier n" "x = nodeId n"
    | (pattern) els el where "isObjectBindingPattern n \<or> isArrayBindingPattern n"
        "getArray n ''elements'' = Some els" "el \<in> set els" "isBindingElement el"
        "x \<in> set (bindingTargets el)"
    | (element) name where "isBindingElement n" "getProp n ''name'' = Some name"
        "x \<in> set (bindingTargets name)"
proof -
  have eq: "bindingTargets n =
     (if isIdentifier n then [nodeId n]
      else if isObjectBindingPattern n \<or> isArrayBindingPattern n then
        (case getArray n ''elements'' of
           None \<Rightarrow> []
         | Some els \<Rightarrow> concat (map (\<lambda>el. if isBindingElement el then bindingTargets el else []) els))
      else if isBindingElement n then
        (case getProp n ''name'' of None \<Rightarrow> [] | Some name \<Rightarrow> bindingTargets name)
      else [])"
    by (rule bindingTargets.simps)
  show thesis
  proof (cases "isIdentifier n")
    case True
    with assms eq have "x = nodeId n" by simp
    with True show thesis by (rule ident)
  next
    case ni: False
    show thesis
    proof (cases "isObjectBindingPattern n \<or> isArrayBindingPattern n")
      case True
      with ni eq have e: "bindingTargets n = (case getArray n ''elements'' of
           None \<Rightarrow> []
         | Some els \<Rightarrow> concat (map (\<lambda>el. if isBindingElement el then bindingTargets el else []) els))"
        by simp
      with assms obtain els where els: "getArray n ''elements'' = Some els"
        by (cases "getArray n ''elements''") simp_all
      with e assms have "x \<in> set (concat (map (\<lambda>el. if isBindingElement el then bindingTargets el else []) els))"
        by simp
      then obtain el where "el \<in> set els" "x \<in> set (if isBindingElement el then bindingTargets el else [])"
        by auto
      then have "el \<in> set els" "isBindingElement el" "x \<in> set (bindingTargets el)"
        by (simp_all split: if_splits)
      with True els show thesis by (rule pattern)
    next
      case np: False
      show thesis
      proof (cases "isBindingElement n")
        case True
        with ni np eq have e: "bindingTargets n =
            (case getProp n ''name'' of None \<Rightarrow> [] | Some name \<Rightarrow> bindingTargets name)"
          by simp
        with assms obtain name where nm: "getProp n ''name'' = Some name"
          by (cases "getProp n ''name''") simp_all
        with e assms have "x \<in> set (bindingTargets name)" by simp
        with True nm show thesis by (rule element)
      next
        case False
        with ni np eq have "bindingTargets n = []" by simp
        with assms show thesis by simp
      qed
    qed
  qed
qed

lemma mayRecord_child:
  assumes d: "distinct (nodeIds n)" and ch: "ch \<in> set (forEachChild n)"
    and a: "isParameter n \<Longrightarrow> getProp n ''name'' = Some ch \<Longrightarrow> \<not> c'"
    and b: "\<not> c \<Longrightarrow> patternish n \<Longrightarrow> \<not> c'"
  shows "mayRecord ch c' \<subseteq> mayRecord n c"
proof
  fix x assume x: "x \<in> mayRecord ch c'"
  then have xin: "x \<in> set (nodeIds ch)" and xp: "x \<notin> set (parameterTargets ch)"
    and xb: "\<not> c' \<Longrightarrow> x \<notin> set (bindingTargets ch)"
    by (auto simp: mayRecord_def)
  have other: "False" if "ot \<in> set (forEachChild n)" "x \<in> set (nodeIds ot)" "ot \<noteq> ch" for ot
    using distinct_children_disjoint[OF d that(1) ch that(3)] that(2) xin by blast
  have 1: "x \<in> set (nodeIds n)" using xin nodeIds_child_subset[OF ch] by blast
  have 2: "x \<notin> set (parameterTargets n)"
  proof
    assume "x \<in> set (parameterTargets n)"
    then show False
    proof (cases rule: parameterTargets_cases)
      case (own name)
      have nc: "name \<in> set (forEachChild n)" using own(2) by (rule getProp_child)
      have xn: "x \<in> set (nodeIds name)" using own(3) bindingTargets_subset by blast
      show False
      proof (cases "name = ch")
        case True
        with a own have "\<not> c'" by simp
        with xb own(3) True show False by simp
      next
        case False
        with other[OF nc xn] show False by simp
      qed
    next
      case (child ot)
      have xo: "x \<in> set (nodeIds ot)" using child(2) parameterTargets_subset by blast
      show False
      proof (cases "ot = ch")
        case True with child(2) xp show False by simp
      next
        case False with other[OF child(1) xo] show False by simp
      qed
    qed
  qed
  have 3: "x \<notin> set (bindingTargets n)" if nc: "\<not> c"
  proof
    assume "x \<in> set (bindingTargets n)"
    then show False
    proof (cases rule: bindingTargets_cases)
      case ident
      with distinct_child(2)[OF d ch] xin show False by simp
    next
      case (pattern els el)
      then have "patternish n" by (auto simp: patternish_def)
      with b nc have c': "\<not> c'" by simp
      have ec: "el \<in> set (forEachChild n)" using pattern(2,3) getArray_children by blast
      have xe: "x \<in> set (nodeIds el)" using pattern(5) bindingTargets_subset by blast
      show False
      proof (cases "el = ch")
        case True with xb[OF c'] pattern(5) show False by simp
      next
        case False with other[OF ec xe] show False by simp
      qed
    next
      case (element name)
      then have "patternish n" by (auto simp: patternish_def)
      with b nc have c': "\<not> c'" by simp
      have ec: "name \<in> set (forEachChild n)" using element(2) by (rule getProp_child)
      have xe: "x \<in> set (nodeIds name)" using element(3) bindingTargets_subset by blast
      show False
      proof (cases "name = ch")
        case True with xb[OF c'] element(3) show False by simp
      next
        case False with other[OF ec xe] show False by simp
      qed
    qed
  qed
  from 1 2 3 show "x \<in> mayRecord n c" by (auto simp: mayRecord_def)
qed

lemma nodeId_mayRecord:
  assumes "distinct (nodeIds n)" and "c \<or> \<not> isIdentifier n" and "\<not> patternish n"
  shows "nodeId n \<in> mayRecord n c"
proof -
  have "nodeId n \<notin> set (bindingTargets n)" if "\<not> c"
  proof
    assume "nodeId n \<in> set (bindingTargets n)"
    then show False
    proof (cases rule: bindingTargets_cases)
      case ident with assms(2) that show False by simp
    next
      case (pattern els el) with assms(3) show False by (auto simp: patternish_def)
    next
      case (element name) with assms(3) show False by (auto simp: patternish_def)
    qed
  qed
  with nodeId_notin_parameterTargets[OF assms(1)] nodeId_in_nodeIds[of n]
  show ?thesis by (auto simp: mayRecord_def)
qed

lemma forEach_records:
  assumes IH: "\<And>n' i st st'. n' \<in> set ns \<Longrightarrow> ar_node m n' c' i st = Some (Inr st') \<Longrightarrow>
                 recordsOnly (mayRecord n' c') st st'"
    and sub: "\<And>n'. n' \<in> set ns \<Longrightarrow> mayRecord n' c' \<subseteq> A"
    and run: "ar_forEach m ns c' st = Some (Inr st')"
  shows "recordsOnly A st st'"
  using assms
proof (induction ns arbitrary: st)
  case Nil
  then show ?case by (simp add: recordsOnly_refl)
next
  case (Cons a ns)
  from Cons.prems(3) obtain x where
    1: "ar_node m a c' None st = Some (Inr x)" and 2: "ar_forEach m ns c' x = Some (Inr st')"
    by (auto elim!: andThenE)
  have "recordsOnly (mayRecord a c') st x" using Cons.prems(1)[OF _ 1] by simp
  then have r1: "recordsOnly A st x" using Cons.prems(2)[of a] by (auto intro: recordsOnly_mono)
  have r2: "recordsOnly A x st'"
    using Cons.IH[OF _ _ 2] Cons.prems(1,2) by simp
  from r1 r2 show ?case by (rule recordsOnly_trans)
qed

lemma ar_node_records:
  "distinct (nodeIds n) \<Longrightarrow> ar_node m n c i st = Some (Inr st') \<Longrightarrow>
     recordsOnly (mayRecord n c) st st'"
proof (induction n arbitrary: c i st st' rule: measure_induct_rule[where f = size])
  case (less n)
  note d = less.prems(1)
  have IH: "recordsOnly (mayRecord ch c') s s'"
    if "ch \<in> set (forEachChild n)" "ar_node m ch c' i' s = Some (Inr s')" for ch c' i' s s'
    using less.IH[OF size_child_of[OF that(1)] distinct_child(1)[OF d that(1)] that(2)] .
  have arg: "recordsOnly (mayRecord n c0) s s'"
    if run: "ar_visitNode m (getChild n p) c' i' s = Some (Inr s')"
      and a: "isParameter n \<Longrightarrow> p = ''name'' \<Longrightarrow> \<not> c'"
      and b: "\<not> c0 \<Longrightarrow> patternish n \<Longrightarrow> \<not> c'"
    for p c' i' s s' c0
  proof (cases "getChild n p")
    case None
    with run show ?thesis by (simp add: recordsOnly_refl)
  next
    case (Some v)
    have sub: "mayRecord ch c' \<subseteq> mayRecord n c0" if ch: "ch \<in> set (propNodes v)" for ch
    proof (rule mayRecord_child[OF d])
      show "ch \<in> set (forEachChild n)" using getChild_children[OF Some] ch by blast
      show "\<not> c'" if "isParameter n" "getProp n ''name'' = Some ch"
      proof (cases "p = ''name''")
        case True with a that show ?thesis by simp
      next
        case False
        from that(2) have "getChild n ''name'' = Some (Single ch)" by (simp add: getProp_getChild)
        from distinct_props_disjoint[OF d Some this False ch] nodeId_in_nodeIds[of ch]
        show ?thesis by auto
      qed
      show "\<not> c'" if "\<not> c0" "patternish n" using b that by simp
    qed
    show ?thesis
    proof (cases v)
      case (Single x)
      with run Some have r: "ar_node m x c' i' s = Some (Inr s')" by simp
      have xc: "x \<in> set (forEachChild n)" using getChild_children[OF Some] Single by simp
      from IH[OF xc r] sub[of x] Single show ?thesis by (auto intro: recordsOnly_mono)
    next
      case (Array xs)
      with run Some have r: "ar_forEach m xs c' s = Some (Inr s')" by simp
      show ?thesis
      proof (rule forEach_records[OF _ _ r])
        fix n' i st st' assume "n' \<in> set xs" "ar_node m n' c' i st = Some (Inr st')"
        then show "recordsOnly (mayRecord n' c') st st'"
          using IH getChild_children[OF Some] Array by auto
      next
        fix n' assume "n' \<in> set xs"
        then show "mayRecord n' c' \<subseteq> mayRecord n c0" using sub Array by simp
      qed
    qed
  qed
  have each: "recordsOnly (mayRecord n c0) s s'"
    if run: "ar_forEach m (forEachChild n) c0 s = Some (Inr s')" and np: "\<not> isParameter n"
    for s s' c0
  proof (rule forEach_records[OF _ _ run])
    fix n' i st st' assume "n' \<in> set (forEachChild n)" "ar_node m n' c0 i st = Some (Inr st')"
    then show "recordsOnly (mayRecord n' c0) st st'" by (rule IH)
  next
    fix n' assume "n' \<in> set (forEachChild n)"
    then show "mayRecord n' c0 \<subseteq> mayRecord n c0"
      using np by (intro mayRecord_child[OF d]) simp_all
  qed
  have ident: "recordsOnly (mayRecord n c0) s s'"
    if "isIdentifier n" "c0" "addReference s sc n w ini = Some s'" for s sc s' w ini c0
  proof (rule addReference_recordsOnly[OF that(3)])
    show "nodeId n \<in> mayRecord n c0"
      using that(1,2) by (intro nodeId_mayRecord[OF d]) (simp_all add: patternish_def)
  qed
  have left: "recordsOnly (mayRecord n c0) s s'"
    if "isBinaryExpression n" "getProp n ''left'' = Some x" "isIdentifier x"
       "addReference s sc x w False = Some s'" for s sc x s' w c0
  proof (rule addReference_recordsOnly[OF that(4)])
    have xc: "x \<in> set (forEachChild n)" using that(2) by (rule getProp_child)
    have "nodeId x \<in> mayRecord x True"
      using that(3) by (intro nodeId_mayRecord[OF distinct_child(1)[OF d xc]]) (simp_all add: patternish_def)
    moreover have "mayRecord x True \<subseteq> mayRecord n c0"
      using that(1) by (intro mayRecord_child[OF d xc]) (simp_all add: patternish_def)
    ultimately show "nodeId x \<in> mayRecord n c0" by blast
  qed
  have false_case: "recordsOnly (mayRecord n False) s s'"
    if "ar_node m n False i0 s = Some (Inr s')" for i0 s s'
    by (rule ar_node_cases[where R = "recordsOnly (mayRecord n False)" and c = False, OF _ _ _ _ _ _ _ that])
       (auto intro: arg each ident left recordsOnly_refl recordsOnly_trans)
  have self: "recordsOnly (mayRecord n c0) s s'"
    if "ar_node m n False None s = Some (Inr s')" for s s' c0
    using false_case[OF that] mayRecord_mono[of n c0] by (rule recordsOnly_mono)
  show ?case
    by (rule ar_node_cases[where R = "recordsOnly (mayRecord n c)" and c = c, OF _ _ _ _ _ _ _ less.prems(2)])
       (auto intro: arg each ident left self recordsOnly_refl recordsOnly_trans)
qed

text \<open>
  Claim C5, amended.  Whatever node reference resolution visits, with whatever flag, in a
  tree whose nodes are distinct: every reference it appends to any scope's list is to an
  identifier of that subtree that is not a target of the name of a parameter declaration
  (a plain identifier or a target of a destructuring pattern).  The patterns of variable
  declarations are not covered: a target of such a pattern can be recorded.
\<close>

theorem parameter_targets_not_recorded:
  assumes "distinct (nodeIds n)" and "ar_node scopesMap n c i st = ok st'"
  shows "recordsOnly (set (nodeIds n) - set (parameterTargets n)) st st'"
proof -
  from assms(2) have "ar_node scopesMap n c i st = Some (Inr st')" by (simp add: ok_def)
  from ar_node_records[OF assms(1) this] show ?thesis
    by (rule recordsOnly_mono) (auto simp: mayRecord_def)
qed

section \<open>What the scope builder changes\<close>


























































section \<open>Which binding tables the scope builder touches\<close>






































section \<open>The two passes at a declaration, an assignment, a name and a loop\<close>








section \<open>The examples, evaluated\<close>

lemmas eval_simps = findScopes_def assignReferences_def newSourceFileScopesContainer_def
  visitNode.simps visitAllChildren.simps visitFunctionLike.simps visitParameterDeclaration.simps
  ar_node.simps visitBindingName.simps visitBindingElement.simps visitArrayBindingElement.simps
  andThen_def ok_def throw_def returns_def getScope_def getChild_def getProp_def getArray_def forEachChild_def
  isFunctionLike_def isClassLike_def isTypeNode_def newScope_def newChildScope_def addBinding_def
  bindingsSet_def addReference_def getBinding.simps addBindingLoop.simps newBinding_def
  bindingReferencesPush_def scopeReferencesPush_def addAllChildren_def importClauseBindings_def
  functionLikeName_def parameterBindings_def NodeFlags_BlockScoped_def NodeFlags_Const_def Let_def
  referencesOf_def recordedTexts_def recordedIdentifiers_def scopeAssigned_def ownBindingOf_def
  scopeForNodeAfterConstruction_def getScopeForNode_def



text \<open>
  Claim C2.  The source file \<open>class C { ["a" + "b"]() {} }\<close> is analysed without an
  error, yet \<open>getScopeForNode\<close> throws for the string literal \<open>"a"\<close>, a node of the tree:
  \<open>visitFunctionLike\<close> maps the name of the method and the children of the name, and
  nothing below them.
\<close>

theorem classComputed_literal_unmapped:
  "scopeAssigned (newSourceFileScopesContainer classComputed) 5 = ok (Some 1) \<and>
   scopeAssigned (newSourceFileScopesContainer classComputed) 6 = ok None \<and>
   scopeForNodeAfterConstruction classComputed (Node 6 StringLiteral ''a'' 0 [])
     = throw NoScopeForNode"
  by (simp add: eval_simps classComputed_def)

text \<open>
  Claim C10.  In \<open>x = = y;\<close> the parser supplies an identifier with empty text as the left
  side of the inner assignment.  The branch for assignments records it without the check
  on the text that the branch for identifiers makes: after construction the list of the
  root scope holds a reference whose identifier has empty text.
\<close>

theorem assignMissing_records_empty_text:
  "recordedTexts (newSourceFileScopesContainer assignMissing) 0 = ok [''x'', [], ''y'']"
  by (simp add: eval_simps assignMissing_def)

text \<open>
  Against claim C5 as stated: in \<open>const {a} = b;\<close> the target \<open>a\<close> of the pattern is
  recorded, after the read of \<open>b\<close>.
\<close>

theorem constDestructure_target_recorded:
  "recordedIdentifiers (newSourceFileScopesContainer constDestructure) 0
     = ok [Node 7 Identifier ''b'' 0 [], Node 6 Identifier ''a'' 0 []]"
  by (simp add: eval_simps constDestructure_def)


theorem parameter_targets_not_recorded_witness:
  "distinct (nodeIds functionDestructure) \<and>
   parameterTargets functionDestructure = [6] \<and>
   (\<exists>st'. ar_node (allInRoot 11) functionDestructure False None (rootStore functionDestructure) = ok st' \<and>
          map (\<lambda>r. nodeId (refIdentifier r)) (scopeReferences (scopes st' ! 0)) = [9] \<and>
          recordsOnly (set (nodeIds functionDestructure) - set (parameterTargets functionDestructure))
            (rootStore functionDestructure) st')"
proof -
  have d: "distinct (nodeIds functionDestructure)"
    by (simp add: functionDestructure_def nodeIds.simps forEachChild_def)
  have t: "parameterTargets functionDestructure = [6]"
    by (simp add: functionDestructure_def parameterTargets.simps bindingTargets.simps
          forEachChild_def getProp_def getArray_def)
  have "\<exists>st'. ar_node (allInRoot 11) functionDestructure False None (rootStore functionDestructure) = ok st' \<and>
          map (\<lambda>r. nodeId (refIdentifier r)) (scopeReferences (scopes st' ! 0)) = [9]"
    by (simp add: eval_simps functionDestructure_def rootStore_def allInRoot_def)
  then obtain st' where r: "ar_node (allInRoot 11) functionDestructure False None (rootStore functionDestructure) = ok st'"
    and l: "map (\<lambda>r. nodeId (refIdentifier r)) (scopeReferences (scopes st' ! 0)) = [9]"
    by (elim exE conjE)
  have "recordsOnly (set (nodeIds functionDestructure) - set (parameterTargets functionDestructure))
            (rootStore functionDestructure) st'"
    using d r by (rule parameter_targets_not_recorded)
  with d t r l show ?thesis by (intro conjI exI[of _ st'])
qed










end
